theory Spec2Isabelle
  imports Main "HOL-Library.AList" "HOL-Library.List_Lexorder" "HOL-Library.Char_ord"
begin

section \<open>Values, records and model descriptors\<close>

text \<open>
  The JavaScript values that occur in request bodies, database rows and attribute
  defaults. A \<open>Date\<close> is represented by its \<open>getTime()\<close> timestamp; numbers are
  integers. \<open>VUndef\<close> is \<open>undefined\<close>, the value of a property that is not there.
\<close>

datatype val = VUndef | VNull | VBool bool | VNum int | VStr string | VDate int

text \<open>
  A plain object (request record, \<open>dataValues\<close> of a row, \<open>where\<close> clause) is an
  association list in insertion order, as \<open>Object.keys\<close> enumerates it.
\<close>

type_synonym jsrecord = "(string \<times> val) list"

definition get :: "jsrecord \<Rightarrow> string \<Rightarrow> val" where
  \<comment> \<open>\<open>data[field]\<close>\<close>
  "get data field = (case map_of data field of None \<Rightarrow> VUndef | Some v \<Rightarrow> v)"

definition keys :: "jsrecord \<Rightarrow> string list" where
  \<comment> \<open>\<open>Object.keys(data)\<close>\<close>
  "keys data = map fst data"

definition assign :: "jsrecord \<Rightarrow> jsrecord \<Rightarrow> jsrecord" where
  \<comment> \<open>\<open>_.assign({}, a, b)\<close>: the properties of \<open>a\<close>, then those of \<open>b\<close> written over them\<close>
  "assign a b = fold (\<lambda>(k, v). AList.update k v) b (fold (\<lambda>(k, v). AList.update k v) a [])"

fun truthy :: "val \<Rightarrow> bool" where
  "truthy VUndef = False"
| "truthy VNull = False"
| "truthy (VBool b) = b"
| "truthy (VNum n) = (n \<noteq> 0)"
| "truthy (VStr s) = (s \<noteq> [])"
| "truthy (VDate t) = True"

text \<open>
  \<open>a === b\<close>. Two \<open>Date\<close> objects are compared by reference, and the two sides of
  every comparison in this code come from different sources (a database row, a request
  body, a model declaration), so they are never the same object.
\<close>

fun strict_eq :: "val \<Rightarrow> val \<Rightarrow> bool" where
  "strict_eq (VDate t) (VDate t') = False"
| "strict_eq a b = (a = b)"

record attribute =
  defaultValue :: val

record index =
  idx_name :: string
  idx_unique :: bool
  idx_primary :: bool
  idx_fields :: "string list"

record unique_key =
  uk_name :: string
  uk_fields :: "string list"

record model_options =
  paranoid :: bool
  deletedAt :: "string option"
  indexes :: "index list"
  uniqueKeys :: "(string \<times> unique_key) list"

text \<open>
  \<open>primaryKeys\<close> holds \<open>Object.keys(model.primaryKeys)\<close>, or \<open>None\<close> when the model
  has no such property.
\<close>

record model =
  model_name :: string
  attributes :: "(string \<times> attribute) list"
  primaryKeys :: "string list option"
  options :: model_options

text \<open>
  What an operation can throw: \<open>ctx.throw(message, status)\<close>, \<open>new Error(error)\<close> around a
  store error, a store error that propagates as it is, and the \<open>TypeError\<close> of a property
  read on \<open>undefined\<close>.
\<close>

record store_error =
  err_name :: string
  err_fields :: "jsrecord option"

datatype error =
    HttpError string nat
  | WrappedError store_error
  | StoreError store_error
  | TypeError

section \<open>Unique index resolver\<close>

text \<open>
  A function that the source names \<open>_name\<close> is written \<open>u_name\<close> here.
\<close>

definition u_getIndexes :: "model \<Rightarrow> index list" where
  "u_getIndexes m =
     (case primaryKeys m of
        None \<Rightarrow> []
      | Some ks \<Rightarrow>
          if ks \<noteq> []
          then [\<lparr>idx_name = ''PRIMARY'', idx_unique = True, idx_primary = True, idx_fields = ks\<rparr>]
          else [])
     @ map (\<lambda>i. \<lparr>idx_name = idx_name i, idx_unique = idx_unique i, idx_primary = False,
                   idx_fields = idx_fields i\<rparr>)
           (indexes (options m))
     @ map (\<lambda>(key, uniqueKey).
              \<lparr>idx_name = uk_name uniqueKey, idx_unique = True, idx_primary = False,
               idx_fields = uk_fields uniqueKey\<rparr>)
           (uniqueKeys (options m))"

definition u_getUniqueIndexes :: "model \<Rightarrow> index list" where
  "u_getUniqueIndexes m = filter idx_unique (u_getIndexes m)"

definition u_getInstanceValidIndexes :: "index list \<Rightarrow> jsrecord \<Rightarrow> index list" where
  "u_getInstanceValidIndexes idxs data =
     filter (\<lambda>i. list_all (\<lambda>field. get data field \<noteq> VUndef) (idx_fields i)) idxs"

definition u_getInstanceValidIndexFields :: "index list \<Rightarrow> jsrecord \<Rightarrow> jsrecord option" where
  "u_getInstanceValidIndexFields idxs data =
     (case u_getInstanceValidIndexes idxs data of
        [] \<Rightarrow> None
      | i # _ \<Rightarrow> Some (fold (\<lambda>field flds. AList.update field (get data field) flds)
                          (idx_fields i) []))"

section \<open>Soft-delete reconciler\<close>

definition isDeleted :: "model \<Rightarrow> jsrecord option \<Rightarrow> error + bool" where
  "isDeleted m row =
     (case deletedAt (options m) of
        None \<Rightarrow> Inr False
      | Some deletedAtCol \<Rightarrow>
          if \<not> paranoid (options m) \<or> deletedAtCol = [] then Inr False
          else (case row of
                  None \<Rightarrow> Inr True
                | Some r \<Rightarrow>
                    (case map_of (attributes m) deletedAtCol of
                       None \<Rightarrow> Inl TypeError
                     | Some a \<Rightarrow>
                         let defaultDeletedAt =
                               (if defaultValue a = VUndef then VNull else defaultValue a);
                             deletedAt = get r deletedAtCol
                         in Inr (case (defaultDeletedAt, deletedAt) of
                                   (VDate t, VDate t') \<Rightarrow> t \<noteq> t'
                                 | _ \<Rightarrow> \<not> strict_eq defaultDeletedAt deletedAt))))"

text \<open>
  A request body is a single object or an array of objects; \<open>BNull\<close> is the falsy body.
  \<open>switchByType\<close> comes from \<open>lib/common.js\<close>.
\<close>

datatype body = BNull | BObject jsrecord | BArray "jsrecord list"

definition switchByType_body :: "body \<Rightarrow> (jsrecord \<Rightarrow> 'a) \<Rightarrow> (jsrecord list \<Rightarrow> 'a) \<Rightarrow> 'a option" where
  \<comment> \<open>Modelled from the spec: \<open>switchByType\<close> of \<open>lib/common.js\<close>, which is not among the
      sources; it calls the handler registered for the type of the value (\<open>object\<close> for a
      single record, \<open>array\<close> for a batch) and yields nothing when none is registered.\<close>
  "switchByType_body data on_object on_array =
     (case data of BNull \<Rightarrow> None | BObject d \<Rightarrow> Some (on_object d) | BArray ds \<Rightarrow> Some (on_array ds))"

text \<open>
  \<open>setDefaultDeletedValue\<close> writes into its argument; the model returns the argument as it
  is after the call.
\<close>

definition setDefaultDeletedValue :: "model \<Rightarrow> body \<Rightarrow> error + body" where
  "setDefaultDeletedValue m data =
     (case deletedAt (options m) of
        None \<Rightarrow> Inr data
      | Some deletedAtCol \<Rightarrow>
          if \<not> paranoid (options m) \<or> deletedAtCol = [] then Inr data
          else if data = BNull then Inr data
          else (case map_of (attributes m) deletedAtCol of
                  None \<Rightarrow> Inl TypeError
                | Some a \<Rightarrow>
                    let defaultDeletedAt =
                          (if defaultValue a = VUndef then VNull else defaultValue a)
                    in (case switchByType_body data
                              (\<lambda>d. BObject (AList.update deletedAtCol defaultDeletedAt d))
                              (\<lambda>ds. BArray (map (AList.update deletedAtCol defaultDeletedAt) ds)) of
                          None \<Rightarrow> Inr data
                        | Some data' \<Rightarrow> Inr data')))"

section \<open>Store adapter\<close>

text \<open>
  The Sequelize model is the store. Its calls are the fields of a record of functions over
  a state \<open>'s\<close> that the model does not look into: each call returns what it resolves to,
  or the error it rejects with, and the next state.
\<close>

record find_query =
  fq_where :: "jsrecord option"
  fq_paranoid :: bool

datatype where_clause = WhereFields "jsrecord option" | WhereOr "jsrecord option list"

record findAll_query =
  fa_where :: where_clause
  fa_order :: "(string \<times> string) list"

record create_options =
  co_ignoreDuplicates :: val
  co_include :: "string list"
  co_fields :: "string list option"

record bulk_options =
  updateOnDuplicate :: "string list option"

record update_options =
  uo_where :: "jsrecord option"

record 's store =
  st_upsert :: "jsrecord \<Rightarrow> 's \<Rightarrow> (store_error + bool) \<times> 's"
  st_find :: "find_query \<Rightarrow> 's \<Rightarrow> (store_error + jsrecord option) \<times> 's"
  st_findAll :: "findAll_query \<Rightarrow> 's \<Rightarrow> (store_error + jsrecord list) \<times> 's"
  st_create :: "jsrecord \<Rightarrow> create_options option \<Rightarrow> 's \<Rightarrow> (store_error + jsrecord) \<times> 's"
  st_bulkCreate :: "jsrecord list \<Rightarrow> bulk_options option \<Rightarrow> 's \<Rightarrow> (store_error + unit) \<times> 's"
  st_update :: "jsrecord \<Rightarrow> update_options \<Rightarrow> 's \<Rightarrow> (store_error + unit) \<times> 's"
  st_restore :: "jsrecord \<Rightarrow> 's \<Rightarrow> (store_error + unit) \<times> 's"

definition ctx_throw :: "string \<Rightarrow> nat \<Rightarrow> error + 'a" where
  \<comment> \<open>\<open>ctx.throw(message, status)\<close>\<close>
  "ctx_throw message status = Inl (HttpError message status)"

definition unique_message :: "model \<Rightarrow> string" where
  "unique_message m = ''RestQL: '' @ model_name m @ '' unique constraint error''"

definition is_unique_error :: "store_error \<Rightarrow> bool" where
  "is_unique_error e = (err_name e = ''SequelizeUniqueConstraintError'')"

fun findIndex :: "('a \<Rightarrow> bool) \<Rightarrow> 'a list \<Rightarrow> nat option" where
  \<comment> \<open>\<open>Array.prototype.findIndex\<close>; \<open>None\<close> is \<open>-1\<close>\<close>
  "findIndex P [] = None"
| "findIndex P (x # xs) = (if P x then Some 0 else map_option Suc (findIndex P xs))"

definition splice1 :: "nat \<Rightarrow> 'a list \<Rightarrow> 'a list" where
  \<comment> \<open>the array after \<open>data.splice(index, 1)\<close>\<close>
  "splice1 index data = take index data @ drop (Suc index) data"

section \<open>Write orchestrator: upsert and bulkUpsert\<close>

definition u_upsert ::
  "'s store \<Rightarrow> model \<Rightarrow> jsrecord \<Rightarrow> 's \<Rightarrow> (error + bool \<times> jsrecord option) \<times> 's" where
  "u_upsert st m data s =
     (let uniqueIndexes = u_getUniqueIndexes m;
          where = u_getInstanceValidIndexFields uniqueIndexes data
      in case where of
           None \<Rightarrow> (ctx_throw ''RestQL: unique index fields cannot be found'' 400, s)
         | Some w \<Rightarrow>
             (case st_upsert st data s of
                (Inl e, s1) \<Rightarrow>
                  if \<not> is_unique_error e then (Inl (WrappedError e), s1)
                  else (ctx_throw (unique_message m) 409, s1)
              | (Inr created, s1) \<Rightarrow>
                  (case st_find st \<lparr>fq_where = Some w, fq_paranoid = True\<rparr> s1 of
                     (Inl e, s2) \<Rightarrow> (Inl (StoreError e), s2)
                   | (Inr row, s2) \<Rightarrow>
                       (case (if row = None
                              then st_find st \<lparr>fq_where = Some w, fq_paranoid = False\<rparr> s2
                              else (Inr row, s2)) of
                          (Inl e, s3) \<Rightarrow> (Inl (StoreError e), s3)
                        | (Inr row', s3) \<Rightarrow>
                            (case isDeleted m row' of
                               Inl e \<Rightarrow> (Inl e, s3)
                             | Inr False \<Rightarrow> (Inr (created, row'), s3)
                             | Inr True \<Rightarrow>
                                 (case row' of
                                    None \<Rightarrow> (Inl TypeError, s3)
                                  | Some r \<Rightarrow>
                                      (case st_restore st r s3 of
                                         (Inl e, s4) \<Rightarrow> (Inl (StoreError e), s4)
                                       | (Inr u, s4) \<Rightarrow> (Inr (created, row'), s4))))))))"

text \<open>
  \<open>JSON.stringify(Object.keys(row).sort())\<close> is represented by the sorted list of keys
  itself: the encoding of a list of strings is injective.
\<close>

definition u_bulkUpsert ::
  "'s store \<Rightarrow> model \<Rightarrow> jsrecord list \<Rightarrow> 's \<Rightarrow> (error + jsrecord list) \<times> 's" where
  "u_bulkUpsert st m data s =
     (case data of
        [] \<Rightarrow> (Inr [], s)
      | data0 # rest \<Rightarrow>
          let match = sort (keys data0);
              isValid = list_all (\<lambda>item. item = match) (map (\<lambda>row. sort (keys row)) data)
          in if \<not> isValid
             then (ctx_throw ''RestQL: array elements have different attributes'' 400, s)
             else
               (case those (map (u_getInstanceValidIndexFields (u_getUniqueIndexes m)) data) of
                  None \<Rightarrow> (ctx_throw ''RestQL: unique index fields cannot be found'' 400, s)
                | Some or_list \<Rightarrow>
                    let updatedFields = filter (\<lambda>key. key \<noteq> ''id'') (keys data0)
                    in (case st_bulkCreate st data
                               (Some \<lparr>updateOnDuplicate = Some updatedFields\<rparr>) s of
                          (Inl e, s1) \<Rightarrow>
                            if \<not> is_unique_error e then (Inl (WrappedError e), s1)
                            else (ctx_throw (unique_message m) 409, s1)
                        | (Inr u, s1) \<Rightarrow>
                            (case st_findAll st
                                    \<lparr>fa_where = WhereOr (map Some or_list),
                                     fa_order = [(''id'', ''ASC'')]\<rparr> s1 of
                               (Inl e, s2) \<Rightarrow> (Inl (StoreError e), s2)
                             | (Inr rows, s2) \<Rightarrow> (Inr rows, s2)))))"

section \<open>Conflict translator\<close>

fun split_on :: "char \<Rightarrow> string \<Rightarrow> string list" where
  \<comment> \<open>\<open>value.split(c)\<close>\<close>
  "split_on c [] = [[]]"
| "split_on c (x # xs) =
     (if x = c then [] # split_on c xs
      else (case split_on c xs of [] \<Rightarrow> [[x]] | p # ps \<Rightarrow> (x # p) # ps))"

definition switchByType_value :: "val \<Rightarrow> val list option" where
  \<comment> \<open>Modelled from the spec: \<open>switchByType\<close> of \<open>lib/common.js\<close>, which is not among the
      sources, with the two handlers that \<open>_getUniqueConstraintErrorFields\<close> registers: a
      number maps to itself alone, a string is split at \<open>-\<close>, and any other value yields
      nothing.\<close>
  "switchByType_value v =
     (case v of
        VNum n \<Rightarrow> Some [VNum n]
      | VStr str \<Rightarrow> Some (map VStr (split_on CHR ''-'' str))
      | _ \<Rightarrow> None)"

definition u_getUniqueConstraintErrorFields :: "model \<Rightarrow> store_error \<Rightarrow> jsrecord option" where
  "u_getUniqueConstraintErrorFields m err =
     (case err_fields err of
        None \<Rightarrow> None
      | Some flds \<Rightarrow>
          let fieldsIsValid = list_all (\<lambda>key. map_of (attributes m) key \<noteq> None) (keys flds)
          in if fieldsIsValid then Some flds
             else
               (case find (\<lambda>index. truthy (get flds (idx_name index))) (u_getUniqueIndexes m) of
                  None \<Rightarrow> None
                | Some uniqueIndex \<Rightarrow>
                    (case switchByType_value (get flds (idx_name uniqueIndex)) of
                       None \<Rightarrow> None
                     | Some value \<Rightarrow>
                         if value = [] then None
                         else Some (fold (\<lambda>(index, field) ret.
                                            AList.update field
                                              (if index < length value then value ! index
                                               else VUndef) ret)
                                         (enumerate 0 (idx_fields uniqueIndex)) []))))"

text \<open>
  In \<open>_handleUniqueConstraintError\<close> the test \<open>if (!deletedAtCol || !paranoid) ;\<close> ends in
  an empty statement, so the \<open>ctx.throw(message, status)\<close> on the next line is a statement
  of its own and runs on every call. The lookup, the checks and the reset of the
  attributes follow it in the source and are written after it here.
\<close>

definition u_handleUniqueConstraintError ::
  "'s store \<Rightarrow> model \<Rightarrow> store_error \<Rightarrow> create_options option \<Rightarrow> 's
     \<Rightarrow> (error + jsrecord \<times> jsrecord) \<times> 's" where
  "u_handleUniqueConstraintError st m err opts s =
     (let message = unique_message m;
          status = 409;
          flds = u_getUniqueConstraintErrorFields m err;
          ignoreDuplicates = (case opts of None \<Rightarrow> VUndef | Some b \<Rightarrow> co_ignoreDuplicates b);
          skip = (if deletedAt (options m) \<in> {None, Some []} \<or> \<not> paranoid (options m)
                  then () else ())
      in case (ctx_throw message status :: error + unit) of
           Inl e \<Rightarrow> (Inl e, s)
         | Inr u \<Rightarrow>
             (case st_find st \<lparr>fq_where = flds, fq_paranoid = False\<rparr> s of
                (Inl e, s1) \<Rightarrow> (Inl (StoreError e), s1)
              | (Inr row, s1) \<Rightarrow>
                  (case (flds, row) of
                     (Some f, Some r) \<Rightarrow>
                       (case (if \<not> truthy ignoreDuplicates
                              then map_sum id Not (isDeleted m (Some r))
                              else Inr False) of
                          Inl e \<Rightarrow> (Inl e, s1)
                        | Inr True \<Rightarrow> (ctx_throw message status, s1)
                        | Inr False \<Rightarrow>
                            (Inr (fold (\<lambda>(key, a) row.
                                          if defaultValue a \<noteq> VUndef
                                          then AList.update key (defaultValue a) row
                                          else row)
                                       (attributes m) r,
                                  f), s1))
                   | _ \<Rightarrow> (ctx_throw message status, s1))))"

section \<open>Write orchestrator: create, update and bulkCreate\<close>

definition strip_id :: "jsrecord \<Rightarrow> jsrecord" where
  \<comment> \<open>\<open>if (data.id) delete data.id\<close>\<close>
  "strip_id data = (if truthy (get data ''id'') then AList.delete ''id'' data else data)"

definition update_catch ::
  "'s store \<Rightarrow> model \<Rightarrow> store_error \<Rightarrow> 's \<Rightarrow> (error + jsrecord list) \<times> 's" where
  \<comment> \<open>the \<open>catch\<close> block of \<open>_update\<close>\<close>
  "update_catch st m e s =
     (if \<not> is_unique_error e then (Inl (WrappedError e), s)
      else (case u_handleUniqueConstraintError st m e None s of
              (Inl e', s1) \<Rightarrow> (Inl e', s1)
            | (Inr conflict, s1) \<Rightarrow> (ctx_throw (unique_message m) 409, s1)))"

definition u_update ::
  "'s store \<Rightarrow> model \<Rightarrow> jsrecord \<Rightarrow> update_options \<Rightarrow> 's \<Rightarrow> (error + jsrecord list) \<times> 's" where
  "u_update st m data opts s =
     (case st_update st (strip_id data) opts s of
        (Inl e, s1) \<Rightarrow> update_catch st m e s1
      | (Inr u, s1) \<Rightarrow>
          (case st_findAll st \<lparr>fa_where = WhereFields (uo_where opts), fa_order = []\<rparr> s1 of
             (Inl e, s2) \<Rightarrow> update_catch st m e s2
           | (Inr rows, s2) \<Rightarrow> (Inr rows, s2)))"

definition u_create ::
  "'s store \<Rightarrow> model \<Rightarrow> jsrecord \<Rightarrow> create_options option \<Rightarrow> 's
     \<Rightarrow> (error + jsrecord option) \<times> 's" where
  "u_create st m data opts s =
     (let data1 = strip_id data
      in case st_create st data1 opts s of
           (Inr row, s1) \<Rightarrow> (Inr (Some row), s1)
         | (Inl e, s1) \<Rightarrow>
             if \<not> is_unique_error e then (Inl (WrappedError e), s1)
             else
               (case u_handleUniqueConstraintError st m e opts s1 of
                  (Inl e', s2) \<Rightarrow> (Inl e', s2)
                | (Inr (row, flds), s2) \<Rightarrow>
                    (case u_update st m (assign row data1) \<lparr>uo_where = Some flds\<rparr> s2 of
                       (Inl e', s3) \<Rightarrow> (Inl e', s3)
                     | (Inr rows, s3) \<Rightarrow>
                         (Inr (case rows of [] \<Rightarrow> None | r # _ \<Rightarrow> Some r), s3))))"

text \<open>
  \<open>a == b\<close> on the values of this model. A string is converted to a number when it is an
  optionally signed decimal integer (the empty string converts to 0); a \<open>Date\<close> is an
  object, and no two operands here are the same object.
\<close>

definition digit_val :: "char \<Rightarrow> nat option" where
  "digit_val c =
     (if CHR ''0'' \<le> c \<and> c \<le> CHR ''9'' then Some (of_char c - of_char CHR ''0'') else None)"

definition digits_val :: "string \<Rightarrow> nat option" where
  "digits_val str =
     fold (\<lambda>c acc. case (acc, digit_val c) of (Some n, Some d) \<Rightarrow> Some (10 * n + d) | _ \<Rightarrow> None)
          str (Some 0)"

definition toNumber :: "string \<Rightarrow> int option" where
  "toNumber str =
     (case str of
        [] \<Rightarrow> Some 0
      | c # cs \<Rightarrow>
          if c = CHR ''-'' \<and> cs \<noteq> [] then map_option (\<lambda>n. - int n) (digits_val cs)
          else if c = CHR ''+'' \<and> cs \<noteq> [] then map_option int (digits_val cs)
          else map_option int (digits_val str))"

fun loose_eq :: "val \<Rightarrow> val \<Rightarrow> bool" where
  "loose_eq VUndef b = (b = VUndef \<or> b = VNull)"
| "loose_eq VNull b = (b = VUndef \<or> b = VNull)"
| "loose_eq (VDate t) b = False"
| "loose_eq (VBool x) (VBool y) = (x = y)"
| "loose_eq (VBool x) (VNum y) = (y = (if x then 1 else 0))"
| "loose_eq (VBool x) (VStr y) = (toNumber y = Some (if x then 1 else 0))"
| "loose_eq (VNum x) (VNum y) = (x = y)"
| "loose_eq (VNum x) (VStr y) = (toNumber y = Some x)"
| "loose_eq (VNum x) (VBool y) = (x = (if y then 1 else 0))"
| "loose_eq (VStr x) (VStr y) = (x = y)"
| "loose_eq (VStr x) (VNum y) = (toNumber x = Some y)"
| "loose_eq (VStr x) (VBool y) = (toNumber x = Some (if y then 1 else 0))"
| "loose_eq a b = False"

text \<open>
  The \<open>while (true)\<close> loop of \<open>_bulkCreate\<close>, with the pending batch and the conflicts
  queued so far as its state. It returns both when an insert succeeds.
\<close>

function u_bulkCreate_loop ::
  "'s store \<Rightarrow> model \<Rightarrow> bulk_options option \<Rightarrow> jsrecord list \<Rightarrow> (jsrecord \<times> jsrecord) list \<Rightarrow> 's
     \<Rightarrow> (error + jsrecord list \<times> (jsrecord \<times> jsrecord) list) \<times> 's" where
  "u_bulkCreate_loop st m opts data conflicts s =
     (case st_bulkCreate st data opts s of
        (Inr u, s1) \<Rightarrow> (Inr (data, conflicts), s1)
      | (Inl e, s1) \<Rightarrow>
          if \<not> is_unique_error e then (Inl (WrappedError e), s1)
          else
            (case u_handleUniqueConstraintError st m e None s1 of
               (Inl e', s2) \<Rightarrow> (Inl e', s2)
             | (Inr (row, flds), s2) \<Rightarrow>
                 (case findIndex (\<lambda>r. list_all (\<lambda>key. loose_eq (get flds key) (get r key))
                                               (keys flds)) data of
                    Some index \<Rightarrow>
                      u_bulkCreate_loop st m opts (splice1 index data)
                        (conflicts @ [(assign row (data ! index), flds)]) s2
                  | None \<Rightarrow> (ctx_throw ''RestQL: bulkCreate unique index field error'' 500, s2))))"
  by pat_completeness auto
termination
proof -
  have less: "i < length xs" if "findIndex P xs = Some i"
    for P :: "jsrecord \<Rightarrow> bool" and xs i
    using that by (induction xs arbitrary: i) (auto split: if_splits)
  show ?thesis
    by (relation "measure (\<lambda>(st, m, opts, data, conflicts, s). length data)")
       (auto simp: splice1_def dest!: less)
qed

declare u_bulkCreate_loop.simps [simp del]

text \<open>
  \<open>_bulkCreate\<close> reports a record without identity through \<open>this.throw\<close>, where every
  other place uses \<open>ctx.throw\<close>. \<open>this_ctx\<close> says whether the \<open>this\<close> of the call
  \<open>_bulkCreate.call(this, ctx, model, body)\<close> is a context with a \<open>throw\<close> method; when it
  is not, reading \<open>this.throw\<close> is a \<open>TypeError\<close>.
\<close>

definition u_bulkCreate ::
  "bool \<Rightarrow> 's store \<Rightarrow> model \<Rightarrow> jsrecord list \<Rightarrow> bulk_options option \<Rightarrow> 's
     \<Rightarrow> (error + jsrecord list) \<times> 's" where
  "u_bulkCreate this_ctx st m data opts s =
     (case those (map (u_getInstanceValidIndexFields (u_getUniqueIndexes m)) data) of
        None \<Rightarrow>
          (if this_ctx then ctx_throw ''RestQL: unique index fields cannot be found'' 400
           else Inl TypeError, s)
      | Some or_list \<Rightarrow>
          (case u_bulkCreate_loop st m opts data [] s of
             (Inl e, s1) \<Rightarrow> (Inl e, s1)
           | (Inr (data', conflicts), s1) \<Rightarrow>
               (case (if conflicts \<noteq> []
                      then (case st_bulkCreate st (map fst conflicts)
                                   (Some \<lparr>updateOnDuplicate = Some (map fst (attributes m))\<rparr>)
                                   s1 of
                              (Inl e, s2) \<Rightarrow>
                                if \<not> is_unique_error e then (Inl (WrappedError e), s2)
                                else (ctx_throw (unique_message m) 409, s2)
                            | (Inr u, s2) \<Rightarrow> (Inr (), s2))
                      else (Inr (), s1)) of
                  (Inl e, s2) \<Rightarrow> (Inl e, s2)
                | (Inr u, s2) \<Rightarrow>
                    (case st_findAll st
                            \<lparr>fa_where = WhereOr (map Some or_list),
                             fa_order = [(''id'', ''ASC'')]\<rparr> s2 of
                       (Inl e, s3) \<Rightarrow> (Inl (StoreError e), s3)
                     | (Inr rows, s3) \<Rightarrow> (Inr rows, s3)))))"

section \<open>Existing-row partitioner\<close>

text \<open>
  \<open>Array.prototype.findIndex\<close> with a callback that can throw: the callback runs on the
  elements in order until it returns true, and what it throws ends the search. On the
  empty array it does not run.
\<close>

fun findIndex_throwing :: "('a \<Rightarrow> error + bool) \<Rightarrow> 'a list \<Rightarrow> error + nat option" where
  "findIndex_throwing P [] = Inr None"
| "findIndex_throwing P (x # xs) =
     (case P x of
        Inl e \<Rightarrow> Inl e
      | Inr True \<Rightarrow> Inr (Some 0)
      | Inr False \<Rightarrow>
          (case findIndex_throwing P xs of
             Inl e \<Rightarrow> Inl e
           | Inr index \<Rightarrow> Inr (map_option Suc index)))"

text \<open>
  The \<open>$or.forEach\<close> of \<open>_findExistingRows\<close>: \<open>data\<close> are the returned rows that no earlier
  predicate has taken (\<open>data.splice(index, 1)\<close>). The callback of \<open>data.findIndex\<close> reads
  \<open>Object.keys(or.fields)\<close>, which is a \<open>TypeError\<close> when the record has no identity
  (\<open>or.fields\<close> is \<open>undefined\<close>).
\<close>

fun classifyRows ::
  "(jsrecord option \<times> jsrecord) list \<Rightarrow> jsrecord list \<Rightarrow> jsrecord list \<Rightarrow> jsrecord list
     \<Rightarrow> error + jsrecord list \<times> jsrecord list" where
  "classifyRows [] data existingRows newRows = Inr (existingRows, newRows)"
| "classifyRows ((flds, or_row) # ors) data existingRows newRows =
     (case findIndex_throwing
             (\<lambda>row. case flds of
                       None \<Rightarrow> Inl TypeError
                     | Some f \<Rightarrow>
                         Inr (list_all (\<lambda>key. strict_eq (get row key) (get or_row key)) (keys f)))
             data of
        Inl e \<Rightarrow> Inl e
      | Inr (Some index) \<Rightarrow>
          classifyRows ors (splice1 index data) (existingRows @ [data ! index]) newRows
      | Inr None \<Rightarrow> classifyRows ors data existingRows (newRows @ [or_row]))"

definition u_findExistingRows ::
  "'s store \<Rightarrow> model \<Rightarrow> body \<Rightarrow> 's \<Rightarrow> (error + jsrecord list \<times> jsrecord list) \<times> 's" where
  "u_findExistingRows st m data s =
     (let uniqueIndexes = u_getUniqueIndexes m;
          getOr = (\<lambda>d. (u_getInstanceValidIndexFields uniqueIndexes d, d));
          or_list = (case switchByType_body data (\<lambda>d. [getOr d]) (\<lambda>ds. map getOr ds) of
                       None \<Rightarrow> []
                     | Some l \<Rightarrow> l)
      in case st_findAll st \<lparr>fa_where = WhereOr (map fst or_list), fa_order = []\<rparr> s of
           (Inl e, s1) \<Rightarrow> (Inl (StoreError e), s1)
         | (Inr rows, s1) \<Rightarrow>
             if length rows = length or_list then (Inr (rows, []), s1)
             else (classifyRows or_list rows [] [], s1))"

section \<open>The upsert middleware\<close>



section \<open>Recording the calls made to a store\<close>

datatype call =
    CUpsert jsrecord
  | CFind find_query
  | CFindAll findAll_query
  | CCreate jsrecord "create_options option"
  | CBulkCreate "jsrecord list" "bulk_options option"
  | CUpdate jsrecord update_options
  | CRestore jsrecord

text \<open>
  \<open>traced st\<close> answers as \<open>st\<close> does and appends every call it receives to a log kept
  beside the state of \<open>st\<close>.
\<close>

definition traced :: "'s store \<Rightarrow> ('s \<times> call list) store" where
  "traced st =
     \<lparr>st_upsert = (\<lambda>d (s, log). case st_upsert st d s of (r, s') \<Rightarrow> (r, s', log @ [CUpsert d])),
      st_find = (\<lambda>q (s, log). case st_find st q s of (r, s') \<Rightarrow> (r, s', log @ [CFind q])),
      st_findAll =
        (\<lambda>q (s, log). case st_findAll st q s of (r, s') \<Rightarrow> (r, s', log @ [CFindAll q])),
      st_create =
        (\<lambda>d opts (s, log). case st_create st d opts s of
                              (r, s') \<Rightarrow> (r, s', log @ [CCreate d opts])),
      st_bulkCreate =
        (\<lambda>ds opts (s, log). case st_bulkCreate st ds opts s of
                               (r, s') \<Rightarrow> (r, s', log @ [CBulkCreate ds opts])),
      st_update =
        (\<lambda>d opts (s, log). case st_update st d opts s of
                              (r, s') \<Rightarrow> (r, s', log @ [CUpdate d opts])),
      st_restore =
        (\<lambda>d (s, log). case st_restore st d s of (r, s') \<Rightarrow> (r, s', log @ [CRestore d]))\<rparr>"

fun written :: "call \<Rightarrow> jsrecord list" where
  \<comment> \<open>the records that a call hands to the store to be written\<close>
  "written (CUpsert d) = [d]"
| "written (CCreate d opts) = [d]"
| "written (CBulkCreate ds opts) = ds"
| "written (CUpdate d opts) = [d]"
| "written c = []"

section \<open>Association query rewriter\<close>

text \<open>
  The query generators of \<open>loaders.model.association.plural.get\<close> write into objects, so
  objects live in a heap: a value is a primitive or the address of an object, and an
  object is a list of properties or an array. \<open>next_addr\<close> is the first address not in
  use; creating an object takes it.
\<close>

datatype jv = Prim val | Ref nat

datatype obj = Obj "(string \<times> jv) list" | Arr "jv list"

record heap =
  cells :: "nat \<Rightarrow> obj"
  next_addr :: nat

text \<open>
  A step of a generator takes the heap and returns a value or the error it throws, and the
  heap as it is then: what was written before a throw stays written.
\<close>

type_synonym 'a step = "heap \<Rightarrow> (error + 'a) \<times> heap"

definition ret :: "'a \<Rightarrow> 'a step" where
  "ret x h = (Inr x, h)"

definition bind :: "'a step \<Rightarrow> ('a \<Rightarrow> 'b step) \<Rightarrow> 'b step" where
  "bind f g h = (case f h of (Inl e, h') \<Rightarrow> (Inl e, h') | (Inr x, h') \<Rightarrow> g x h')"

fun truthy_jv :: "jv \<Rightarrow> bool" where
  "truthy_jv (Prim v) = truthy v"
| "truthy_jv (Ref a) = True"

definition new_obj :: "obj \<Rightarrow> jv step" where
  \<comment> \<open>an object or array literal\<close>
  "new_obj ob h =
     (Inr (Ref (next_addr h)),
      h\<lparr>cells := (cells h)(next_addr h := ob), next_addr := Suc (next_addr h)\<rparr>)"

definition read_prop :: "jv \<Rightarrow> string \<Rightarrow> jv step" where
  \<comment> \<open>\<open>target[key]\<close>: a \<open>TypeError\<close> on \<open>undefined\<close> and \<open>null\<close>; the named properties of
      primitives and of arrays are not modelled and read as \<open>undefined\<close>\<close>
  "read_prop target key h =
     (case target of
        Prim v \<Rightarrow> if v = VUndef \<or> v = VNull then (Inl TypeError, h) else (Inr (Prim VUndef), h)
      | Ref a \<Rightarrow>
          (case cells h a of
             Obj ps \<Rightarrow> (Inr (case map_of ps key of None \<Rightarrow> Prim VUndef | Some v \<Rightarrow> v), h)
           | Arr xs \<Rightarrow> (Inr (Prim VUndef), h)))"

definition write_prop :: "jv \<Rightarrow> string \<Rightarrow> jv \<Rightarrow> unit step" where
  \<comment> \<open>\<open>target[key] = v\<close> in strict mode: a \<open>TypeError\<close> on a primitive\<close>
  "write_prop target key v h =
     (case target of
        Prim p \<Rightarrow> (Inl TypeError, h)
      | Ref a \<Rightarrow>
          (case cells h a of
             Obj ps \<Rightarrow> (Inr (), h\<lparr>cells := (cells h)(a := Obj (AList.update key v ps))\<rparr>)
           | Arr xs \<Rightarrow> (Inr (), h)))"

definition assign_into :: "jv \<Rightarrow> (string \<times> jv) list \<Rightarrow> unit step" where
  \<comment> \<open>\<open>_.assign(target, source)\<close>, with the properties of the source given\<close>
  "assign_into target source h =
     (case target of
        Prim p \<Rightarrow> (Inr (), h)
      | Ref a \<Rightarrow>
          (case cells h a of
             Obj ps \<Rightarrow>
               (Inr (), h\<lparr>cells := (cells h)(a := Obj (fold (\<lambda>(k, v). AList.update k v) source ps))\<rparr>)
           | Arr xs \<Rightarrow> (Inr (), h)))"

definition push :: "jv \<Rightarrow> jv \<Rightarrow> unit step" where
  \<comment> \<open>\<open>target.push(v)\<close>: a \<open>TypeError\<close> unless the target is an array\<close>
  "push target v h =
     (case target of
        Prim p \<Rightarrow> (Inl TypeError, h)
      | Ref a \<Rightarrow>
          (case cells h a of
             Obj ps \<Rightarrow> (Inl TypeError, h)
           | Arr xs \<Rightarrow> (Inr (), h\<lparr>cells := (cells h)(a := Arr (xs @ [v]))\<rparr>)))"

fun some_plural :: "jv list \<Rightarrow> bool step" where
  \<comment> \<open>\<open>include.some(include => include.association && include.association.isMultiAssociation)\<close>\<close>
  "some_plural [] = ret False"
| "some_plural (inc # rest) =
     bind (read_prop inc ''association'') (\<lambda>assoc.
       if \<not> truthy_jv assoc then some_plural rest
       else bind (read_prop assoc ''isMultiAssociation'') (\<lambda>multi.
              if truthy_jv multi then ret True else some_plural rest))"

definition hasPluralAssociation :: "jv \<Rightarrow> bool step" where
  "hasPluralAssociation include h =
     (if \<not> truthy_jv include then (Inr False, h)
      else (case include of
              Prim v \<Rightarrow> (Inl TypeError, h)
            | Ref a \<Rightarrow>
                (case cells h a of
                   Arr xs \<Rightarrow> some_plural xs h
                 | Obj ps \<Rightarrow> (Inl TypeError, h))))"

text \<open>
  The association is read and never written, so it is a record of values: its scopes by
  their properties (\<open>None\<close> when there is no scope), \<open>through\<close> absent for an association
  that has none.
\<close>

record through_desc =
  th_model :: bool
  th_scope :: "(string \<times> jv) list option"

record association =
  as_foreignKey :: string
  as_scope :: "(string \<times> jv) list option"
  as_through :: "through_desc option"
  as_oneFromTarget :: jv

text \<open>
  \<open>_.cloneDeep\<close> is lodash's; the generators take it as the parameter \<open>cloneDeep\<close>, which
  returns the copy and the heap with the copy in it.
\<close>

definition hasManyRewrite :: "association \<Rightarrow> jv \<Rightarrow> val \<Rightarrow> jv step" where
  \<comment> \<open>\<open>hasManyQueryGenerator\<close> after \<open>const query = _.cloneDeep(q)\<close>\<close>
  "hasManyRewrite association query ownerId =
     bind (read_prop query ''where'') (\<lambda>w.
     bind (if truthy_jv w then ret w else new_obj (Obj [])) (\<lambda>w'.
     bind (write_prop query ''where'' w') (\<lambda>u.
     bind (case as_scope association of
             None \<Rightarrow> ret ()
           | Some scope \<Rightarrow> bind (read_prop query ''where'') (\<lambda>target. assign_into target scope)) (\<lambda>u.
     bind (read_prop query ''where'') (\<lambda>target.
     bind (write_prop target (as_foreignKey association) (Prim ownerId)) (\<lambda>u.
     bind (read_prop query ''include'') (\<lambda>include.
     bind (hasPluralAssociation include) (\<lambda>plural.
     bind (if plural then write_prop query ''distinct'' (Prim (VBool True)) else ret ()) (\<lambda>u.
     ret query)))))))))"

definition hasManyQueryGenerator ::
  "(heap \<Rightarrow> jv \<Rightarrow> jv \<times> heap) \<Rightarrow> association \<Rightarrow> jv \<Rightarrow> val \<Rightarrow> jv step" where
  "hasManyQueryGenerator cloneDeep association q ownerId =
     bind (\<lambda>h. case cloneDeep h q of (query, h') \<Rightarrow> (Inr query, h')) (\<lambda>query.
     hasManyRewrite association query ownerId)"

definition throughInclude :: "association \<Rightarrow> through_desc \<Rightarrow> jv \<Rightarrow> val \<Rightarrow> unit step" where
  \<comment> \<open>the body of \<open>if (through.model) { ... }\<close> in \<open>belongsToManyQueryGenerator\<close>\<close>
  "throughInclude association through query ownerId =
     bind (new_obj (Obj [(as_foreignKey association, Prim ownerId)])) (\<lambda>throughWhere.
     bind (case th_scope through of
             None \<Rightarrow> ret ()
           | Some scope \<Rightarrow> assign_into throughWhere scope) (\<lambda>u.
     bind (read_prop query ''through'') (\<lambda>qthrough.
     bind (if truthy_jv qthrough then read_prop qthrough ''where'' else ret qthrough) (\<lambda>qtwhere.
     bind (if truthy_jv qtwhere
           then bind (new_obj (Arr [throughWhere, qtwhere])) (\<lambda>both.
                  new_obj (Obj [(''$and'', both)]))
           else ret throughWhere) (\<lambda>throughWhere'.
     bind (read_prop query ''include'') (\<lambda>include.
     bind (if truthy_jv include then ret include else new_obj (Arr [])) (\<lambda>include'.
     bind (write_prop query ''include'' include') (\<lambda>u.
     bind (read_prop query ''joinTableAttributes'') (\<lambda>attrs.
     bind (new_obj (Obj [(''association'', as_oneFromTarget association),
                         (''attributes'', attrs),
                         (''require'', Prim (VBool True)),
                         (''where'', throughWhere')])) (\<lambda>entry.
     bind (read_prop query ''include'') (\<lambda>target.
     push target entry)))))))))))"

definition belongsToManyRewrite :: "association \<Rightarrow> jv \<Rightarrow> val \<Rightarrow> jv step" where
  \<comment> \<open>\<open>belongsToManyQueryGenerator\<close> after \<open>const query = _.cloneDeep(q)\<close>\<close>
  "belongsToManyRewrite association query ownerId =
     bind (case as_scope association of
             None \<Rightarrow> ret (Prim VUndef)
           | Some scope \<Rightarrow> new_obj (Obj scope)) (\<lambda>scopeWhere.
     bind (read_prop query ''where'') (\<lambda>w.
     bind (new_obj (Arr [scopeWhere, w])) (\<lambda>both.
     bind (new_obj (Obj [(''$and'', both)])) (\<lambda>w'.
     bind (write_prop query ''where'' w') (\<lambda>u.
     bind (case as_through association of
             None \<Rightarrow> (\<lambda>h. (Inl TypeError, h))
           | Some through \<Rightarrow>
               if th_model through then throughInclude association through query ownerId
               else ret ()) (\<lambda>u.
     bind (read_prop query ''include'') (\<lambda>include.
     bind (hasPluralAssociation include) (\<lambda>plural.
     bind (if plural then write_prop query ''distinct'' (Prim (VBool True)) else ret ()) (\<lambda>u.
     ret query)))))))))"

definition belongsToManyQueryGenerator ::
  "(heap \<Rightarrow> jv \<Rightarrow> jv \<times> heap) \<Rightarrow> association \<Rightarrow> jv \<Rightarrow> val \<Rightarrow> jv step" where
  "belongsToManyQueryGenerator cloneDeep association q ownerId =
     bind (\<lambda>h. case cloneDeep h q of (query, h') \<Rightarrow> (Inr query, h')) (\<lambda>query.
     belongsToManyRewrite association query ownerId)"

text \<open>
  What the generators need of \<open>cloneDeep\<close> at the call they make. \<open>unchanged h h'\<close>: every
  object of \<open>h\<close> is in \<open>h'\<close> as it was. \<open>clone_of h q r\<close>: the call left the objects of
  \<open>h\<close> as they were, and when it returned an object, the object is a new one and its
  properties hold primitives and objects that were not in \<open>h\<close>, none of them the copy
  itself.
\<close>

definition unchanged :: "heap \<Rightarrow> heap \<Rightarrow> bool" where
  "unchanged h h' = (next_addr h \<le> next_addr h' \<and> (\<forall>a < next_addr h. cells h' a = cells h a))"

definition refs_of :: "obj \<Rightarrow> jv list" where
  "refs_of ob = (case ob of Obj ps \<Rightarrow> map snd ps | Arr xs \<Rightarrow> xs)"

definition is_new :: "heap \<Rightarrow> jv \<Rightarrow> bool" where
  "is_new h v = (case v of Prim p \<Rightarrow> True | Ref a \<Rightarrow> next_addr h \<le> a)"

definition clone_of :: "heap \<Rightarrow> jv \<Rightarrow> jv \<times> heap \<Rightarrow> bool" where
  "clone_of h q r =
     (case r of
        (q', h') \<Rightarrow>
          unchanged h h' \<and>
          (case q' of
             Prim p \<Rightarrow> True
           | Ref a \<Rightarrow>
               next_addr h \<le> a \<and> a < next_addr h' \<and>
               list_all (\<lambda>v. is_new h v \<and> v \<noteq> q') (refs_of (cells h' a))))"

text \<open>
  For the proofs: \<open>clone_inv h0 a\<close> holds of a heap in which the objects of \<open>h0\<close> are
  as they were and the copy at \<open>a\<close> refers to new objects only; \<open>keeps I f Q\<close> says that
  the step \<open>f\<close> keeps \<open>I\<close>, thrown error or not, and returns a value with \<open>Q\<close>.
\<close>

definition clone_inv :: "heap \<Rightarrow> nat \<Rightarrow> heap \<Rightarrow> bool" where
  "clone_inv h0 a h =
     (unchanged h0 h \<and> next_addr h0 \<le> a \<and> a < next_addr h \<and>
      list_all (\<lambda>v. is_new h0 v \<and> v \<noteq> Ref a) (refs_of (cells h a)))"

definition keeps :: "(heap \<Rightarrow> bool) \<Rightarrow> 'a step \<Rightarrow> ('a \<Rightarrow> bool) \<Rightarrow> bool" where
  "keeps I f Q =
     (\<forall>h. I h \<longrightarrow> (case f h of (Inl e, h') \<Rightarrow> I h' | (Inr x, h') \<Rightarrow> I h' \<and> Q x))"

text \<open>
  For the proofs that the generators return: \<open>returns P f Q\<close> says that from a heap with
  \<open>P\<close> the step \<open>f\<close> throws nothing and ends with \<open>Q\<close>. \<open>query_ok\<close> describes a query
  object at \<open>a\<close> as the query parser builds it: its \<open>where\<close> is falsy (absent, say) or
  an object other than the query, its \<open>include\<close> is falsy or an array whose entries are
  all truthy, as objects are; the flags say that \<open>where\<close>, \<open>include\<close> are known to
  be truthy.
\<close>

definition returns :: "(heap \<Rightarrow> bool) \<Rightarrow> 'a step \<Rightarrow> ('a \<Rightarrow> heap \<Rightarrow> bool) \<Rightarrow> bool" where
  "returns P f Q =
     (\<forall>h. P h \<longrightarrow> (case f h of (Inl e, h') \<Rightarrow> False | (Inr x, h') \<Rightarrow> Q x h'))"

definition prop_of :: "(string \<times> jv) list \<Rightarrow> string \<Rightarrow> jv" where
  "prop_of ps key = (case map_of ps key of None \<Rightarrow> Prim VUndef | Some v \<Rightarrow> v)"

definition where_ok :: "nat \<Rightarrow> jv \<Rightarrow> bool" where
  "where_ok a w = (case w of Prim p \<Rightarrow> \<not> truthy p | Ref b \<Rightarrow> b \<noteq> a)"

definition include_ok :: "nat \<Rightarrow> heap \<Rightarrow> jv \<Rightarrow> bool" where
  "include_ok a h v =
     (case v of
        Prim p \<Rightarrow> \<not> truthy p
      | Ref c \<Rightarrow>
          c \<noteq> a \<and> c < next_addr h \<and>
          (case cells h c of Obj ps \<Rightarrow> False | Arr xs \<Rightarrow> list_all truthy_jv xs))"

definition query_ok :: "bool \<Rightarrow> bool \<Rightarrow> nat \<Rightarrow> heap \<Rightarrow> bool" where
  "query_ok has_where has_include a h =
     (a < next_addr h \<and>
      (case cells h a of
         Arr xs \<Rightarrow> False
       | Obj ps \<Rightarrow>
           where_ok a (prop_of ps ''where'') \<and>
           (has_where \<longrightarrow> truthy_jv (prop_of ps ''where'')) \<and>
           include_ok a h (prop_of ps ''include'') \<and>
           (has_include \<longrightarrow> truthy_jv (prop_of ps ''include''))))"

section \<open>Example models and stores\<close>

text \<open>
  The model of the specification's scenario: \<open>user\<close> with a unique index on \<open>email\<close>,
  paranoid, whose \<open>deletedAt\<close> attribute declares no default.
\<close>

definition example_user :: model where
  "example_user =
     \<lparr>model_name = ''user'',
      attributes = [(''id'', \<lparr>defaultValue = VUndef\<rparr>),
                    (''email'', \<lparr>defaultValue = VUndef\<rparr>),
                    (''name'', \<lparr>defaultValue = VStr ''anonymous''\<rparr>),
                    (''deletedAt'', \<lparr>defaultValue = VUndef\<rparr>)],
      primaryKeys = Some [''id''],
      options = \<lparr>paranoid = True,
                 deletedAt = Some ''deletedAt'',
                 indexes = [\<lparr>idx_name = ''user_email'', idx_unique = True,
                             idx_primary = False, idx_fields = [''email'']\<rparr>],
                 uniqueKeys = []\<rparr>\<rparr>"

text \<open>A paranoid model whose "not deleted" default is the date of timestamp 0.\<close>

definition example_house :: model where
  "example_house =
     \<lparr>model_name = ''house'',
      attributes = [(''id'', \<lparr>defaultValue = VUndef\<rparr>),
                    (''name'', \<lparr>defaultValue = VUndef\<rparr>),
                    (''deletedAt'', \<lparr>defaultValue = VDate 0\<rparr>)],
      primaryKeys = Some [''id''],
      options = \<lparr>paranoid = True,
                 deletedAt = Some ''deletedAt'',
                 indexes = [],
                 uniqueKeys = [(''house_name'',
                                \<lparr>uk_name = ''house_name'', uk_fields = [''name'']\<rparr>)]\<rparr>\<rparr>"

text \<open>
  A store without state: every write fails with \<open>failure\<close> when one is given and succeeds
  otherwise, \<open>findAll\<close> returns \<open>rows\<close> and \<open>find\<close> the first of them.
\<close>

definition fixed_store :: "store_error option \<Rightarrow> jsrecord list \<Rightarrow> unit store" where
  "fixed_store failure rows =
     \<lparr>st_upsert = (\<lambda>d s. (case failure of None \<Rightarrow> Inr True | Some e \<Rightarrow> Inl e, s)),
      st_find = (\<lambda>q s. (Inr (case rows of [] \<Rightarrow> None | r # _ \<Rightarrow> Some r), s)),
      st_findAll = (\<lambda>q s. (Inr rows, s)),
      st_create = (\<lambda>d opts s. (case failure of None \<Rightarrow> Inr d | Some e \<Rightarrow> Inl e, s)),
      st_bulkCreate = (\<lambda>ds opts s. (case failure of None \<Rightarrow> Inr () | Some e \<Rightarrow> Inl e, s)),
      st_update = (\<lambda>d opts s. (case failure of None \<Rightarrow> Inr () | Some e \<Rightarrow> Inl e, s)),
      st_restore = (\<lambda>d s. (Inr (), s))\<rparr>"

text \<open>The model of the specification's partition example: a unique index on \<open>uniq\<close>.\<close>

definition example_thing :: model where
  "example_thing =
     \<lparr>model_name = ''thing'',
      attributes = [(''id'', \<lparr>defaultValue = VUndef\<rparr>),
                    (''uniq'', \<lparr>defaultValue = VUndef\<rparr>)],
      primaryKeys = Some [''id''],
      options = \<lparr>paranoid = False,
                 deletedAt = None,
                 indexes = [\<lparr>idx_name = ''thing_uniq'', idx_unique = True,
                             idx_primary = False, idx_fields = [''uniq'']\<rparr>],
                 uniqueKeys = []\<rparr>\<rparr>"

text \<open>
  A deep copy for the examples: it copies an object after the objects its properties refer
  to, down to \<open>depth\<close> levels.
\<close>

fun example_cloneDeep :: "nat \<Rightarrow> heap \<Rightarrow> jv \<Rightarrow> jv \<times> heap"
  and example_cloneList :: "nat \<Rightarrow> heap \<Rightarrow> jv list \<Rightarrow> jv list \<times> heap" where
  "example_cloneDeep 0 h v = (v, h)"
| "example_cloneDeep (Suc n) h (Prim p) = (Prim p, h)"
| "example_cloneDeep (Suc n) h (Ref a) =
     (case cells h a of
        Obj ps \<Rightarrow>
          (case example_cloneList n h (map snd ps) of
             (vs, h') \<Rightarrow>
               (Ref (next_addr h'),
                h'\<lparr>cells := (cells h')(next_addr h' := Obj (zip (map fst ps) vs)),
                    next_addr := Suc (next_addr h')\<rparr>))
      | Arr xs \<Rightarrow>
          (case example_cloneList n h xs of
             (vs, h') \<Rightarrow>
               (Ref (next_addr h'),
                h'\<lparr>cells := (cells h')(next_addr h' := Arr vs),
                    next_addr := Suc (next_addr h')\<rparr>)))"
| "example_cloneList n h [] = ([], h)"
| "example_cloneList n h (v # vs) =
     (case example_cloneDeep n h v of
        (v', h1) \<Rightarrow> (case example_cloneList n h1 vs of (vs', h2) \<Rightarrow> (v' # vs', h2)))"

text \<open>
  A heap with the query \<open>{where: {name: 'x'}, attributes: ['id']}\<close> at address 2.
\<close>

definition example_heap :: heap where
  "example_heap =
     \<lparr>cells = (\<lambda>a. Obj [])
         (0 := Obj [(''name'', Prim (VStr ''x''))],
          1 := Arr [Prim (VStr ''id'')],
          2 := Obj [(''where'', Ref 0), (''attributes'', Ref 1)]),
      next_addr = 3\<rparr>"

definition example_hasMany :: association where
  "example_hasMany =
     \<lparr>as_foreignKey = ''house_id'',
      as_scope = Some [(''kind'', Prim (VStr ''castle''))],
      as_through = None,
      as_oneFromTarget = Prim VUndef\<rparr>"

definition example_belongsToMany :: association where
  "example_belongsToMany =
     \<lparr>as_foreignKey = ''house_id'',
      as_scope = None,
      as_through = Some \<lparr>th_model = True, th_scope = None\<rparr>,
      as_oneFromTarget = Prim (VStr ''oneFromTarget'')\<rparr>"

section \<open>The partition as the specification words it\<close>

text \<open>
  A returned row matches an identity predicate when its value equals the predicate's at
  every identity field. In the words of the specification each predicate is classified
  against all the returned rows: one that matches some row contributes that row (the first
  such row) to \<open>existingRows\<close>, one that matches none contributes its record to
  \<open>newRows\<close>.
\<close>

definition identity_matches :: "jsrecord \<Rightarrow> jsrecord \<Rightarrow> bool" where
  "identity_matches ident row = list_all (\<lambda>key. strict_eq (get row key) (get ident key)) (keys ident)"

definition partition_spec ::
  "(jsrecord \<times> jsrecord) list \<Rightarrow> jsrecord list \<Rightarrow> jsrecord list \<times> jsrecord list" where
  "partition_spec preds rows =
     (List.map_filter (\<lambda>(ident, record). find (identity_matches ident) rows) preds,
      map snd (filter (\<lambda>(ident, record). find (identity_matches ident) rows = None) preds))"

text \<open>
  The partition in which a returned row serves one predicate only. The predicates are
  taken in input order, each against the rows that are left: a predicate that matches a
  row that is left contributes the first such row to \<open>existingRows\<close> and takes it away, one
  that matches none contributes its record to \<open>newRows\<close>. A record without identity has no
  predicate to match a row with: when no row is left it is new, as is every record after
  it, and when a row is left the partition fails.
\<close>

fun partition_taking ::
  "(jsrecord option \<times> jsrecord) list \<Rightarrow> jsrecord list \<Rightarrow> error + jsrecord list \<times> jsrecord list" where
  "partition_taking [] rows = Inr ([], [])"
| "partition_taking ((None, rcd) # preds) rows =
     (if rows = [] then Inr ([], rcd # map snd preds) else Inl TypeError)"
| "partition_taking ((Some ident, rcd) # preds) rows =
     (case find (identity_matches ident) rows of
        Some row \<Rightarrow>
          (case partition_taking preds (remove1 row rows) of
             Inl e \<Rightarrow> Inl e
           | Inr (existing, new) \<Rightarrow> Inr (row # existing, new))
      | None \<Rightarrow>
          (case partition_taking preds rows of
             Inl e \<Rightarrow> Inl e
           | Inr (existing, new) \<Rightarrow> Inr (existing, rcd # new)))"

section \<open>Properties of the soft-delete reconciler\<close>

lemma get_update: "get (AList.update k v r) k' = (if k' = k then v else get r k')"
  by (simp add: get_def update_conv')

lemma get_delete_same: "get (AList.delete k r) k = VUndef"
  by (simp add: get_def delete_conv')

lemma strict_eq_no_date: "(\<forall>t. a \<noteq> VDate t) \<or> (\<forall>t. b \<noteq> VDate t) \<Longrightarrow> strict_eq a b = (a = b)"
  by (cases a; cases b) auto

text \<open>
  C8. For a paranoid model with a configured (declared) deletedAt field, \<open>isDeleted\<close> is true
  for an absent row; for a present row it compares the row's deletedAt value with the
  declared default (null when none is declared), by timestamp when both are dates and by
  equality of values otherwise, and it is true exactly when the two differ.
\<close>

theorem isDeleted_compares_with_default:
  assumes "paranoid (options m)"
    and "deletedAt (options m) = Some col"
    and "col \<noteq> []"
    and "map_of (attributes m) col = Some a"
    and "d = (if defaultValue a = VUndef then VNull else defaultValue a)"
  shows "isDeleted m None = Inr True \<and>
         isDeleted m (Some row) =
           Inr (case d of
                  VDate t \<Rightarrow> (case get row col of VDate t' \<Rightarrow> t \<noteq> t' | _ \<Rightarrow> True)
                | _ \<Rightarrow> get row col \<noteq> d) \<and>
         isDeleted m (Some row) = Inr (get row col \<noteq> d)"
proof -
  have absent: "isDeleted m None = Inr True"
    using assms by (simp add: isDeleted_def)
  have present: "isDeleted m (Some row) = Inr (get row col \<noteq> d)"
    using assms by (auto simp: isDeleted_def Let_def split: val.splits)
  have "(case d of
           VDate t \<Rightarrow> (case get row col of VDate t' \<Rightarrow> t \<noteq> t' | _ \<Rightarrow> True)
         | _ \<Rightarrow> get row col \<noteq> d) = (get row col \<noteq> d)"
    by (auto split: val.splits)
  with absent present show ?thesis by simp
qed

theorem isDeleted_compares_with_default_witness:
  "isDeleted example_house None = Inr True \<and>
   isDeleted example_house (Some [(''id'', VNum 1), (''deletedAt'', VDate 0)]) = Inr False \<and>
   isDeleted example_house (Some [(''id'', VNum 1), (''deletedAt'', VDate 1500)]) = Inr True \<and>
   isDeleted example_house (Some [(''id'', VNum 1), (''deletedAt'', VNull)]) = Inr True \<and>
   isDeleted example_user (Some [(''id'', VNum 1), (''deletedAt'', VNull)]) = Inr False \<and>
   isDeleted example_user (Some [(''id'', VNum 1), (''deletedAt'', VDate 1500)]) = Inr True"
proof -
  have h: "paranoid (options example_house)"
    "deletedAt (options example_house) = Some ''deletedAt''" "''deletedAt'' \<noteq> []"
    "map_of (attributes example_house) ''deletedAt'' = Some \<lparr>defaultValue = VDate 0\<rparr>"
    "VDate 0 = (if defaultValue \<lparr>defaultValue = VDate 0\<rparr> = VUndef then VNull
                else defaultValue \<lparr>defaultValue = VDate 0\<rparr>)"
    by (simp_all add: example_house_def)
  have u: "paranoid (options example_user)"
    "deletedAt (options example_user) = Some ''deletedAt''" "''deletedAt'' \<noteq> []"
    "map_of (attributes example_user) ''deletedAt'' = Some \<lparr>defaultValue = VUndef\<rparr>"
    "VNull = (if defaultValue \<lparr>defaultValue = VUndef\<rparr> = VUndef then VNull
              else defaultValue \<lparr>defaultValue = VUndef\<rparr>)"
    by (simp_all add: example_user_def)
  show ?thesis
    using isDeleted_compares_with_default [OF h, of "[(''id'', VNum 1), (''deletedAt'', VDate 0)]"]
      isDeleted_compares_with_default [OF h, of "[(''id'', VNum 1), (''deletedAt'', VDate 1500)]"]
      isDeleted_compares_with_default [OF h, of "[(''id'', VNum 1), (''deletedAt'', VNull)]"]
      isDeleted_compares_with_default [OF u, of "[(''id'', VNum 1), (''deletedAt'', VNull)]"]
      isDeleted_compares_with_default [OF u, of "[(''id'', VNum 1), (''deletedAt'', VDate 1500)]"]
    by (simp add: get_def)
qed

text \<open>
  C10. For a paranoid model whose deletedAt attribute declares no default, the "not
  deleted" value is null: \<open>setDefaultDeletedValue\<close> writes null into the deletedAt field of
  a single record and of every record of a batch, leaving the other fields as they are, and
  \<open>isDeleted\<close> is true for a present row exactly when the row's deletedAt value is not null.
\<close>

theorem no_default_sentinel_is_null:
  assumes "paranoid (options m)"
    and "deletedAt (options m) = Some col"
    and "col \<noteq> []"
    and "map_of (attributes m) col = Some a"
    and "defaultValue a = VUndef"
  shows "setDefaultDeletedValue m (BArray rows) = Inr (BArray (map (AList.update col VNull) rows)) \<and>
         setDefaultDeletedValue m (BObject r) = Inr (BObject (AList.update col VNull r)) \<and>
         get (AList.update col VNull r) k = (if k = col then VNull else get r k) \<and>
         isDeleted m (Some row) = Inr (get row col \<noteq> VNull)"
  using assms
  by (auto simp: setDefaultDeletedValue_def switchByType_body_def isDeleted_def Let_def get_update
           strict_eq_no_date)

theorem no_default_sentinel_is_null_witness:
  "setDefaultDeletedValue example_user
     (BArray [[(''email'', VStr ''a''), (''deletedAt'', VDate 7)], [(''email'', VStr ''b'')]])
     = Inr (BArray [[(''email'', VStr ''a''), (''deletedAt'', VNull)],
                    [(''email'', VStr ''b''), (''deletedAt'', VNull)]]) \<and>
   setDefaultDeletedValue example_user (BObject [(''email'', VStr ''b'')])
     = Inr (BObject [(''email'', VStr ''b''), (''deletedAt'', VNull)]) \<and>
   isDeleted example_user (Some [(''email'', VStr ''a''), (''deletedAt'', VDate 7)]) = Inr True \<and>
   isDeleted example_user (Some [(''email'', VStr ''a''), (''deletedAt'', VNull)]) = Inr False \<and>
   isDeleted example_user (Some [(''email'', VStr ''a'')]) = Inr True"
proof -
  have u: "paranoid (options example_user)"
    "deletedAt (options example_user) = Some ''deletedAt''" "''deletedAt'' \<noteq> []"
    "map_of (attributes example_user) ''deletedAt'' = Some \<lparr>defaultValue = VUndef\<rparr>"
    "defaultValue \<lparr>defaultValue = VUndef\<rparr> = VUndef"
    by (simp_all add: example_user_def)
  show ?thesis
    using no_default_sentinel_is_null [OF u,
        of "[[(''email'', VStr ''a''), (''deletedAt'', VDate 7)], [(''email'', VStr ''b'')]]"
           "[(''email'', VStr ''b'')]" _ "[(''email'', VStr ''a''), (''deletedAt'', VDate 7)]"]
      no_default_sentinel_is_null [OF u, of _ _ _ "[(''email'', VStr ''a''), (''deletedAt'', VNull)]"]
      no_default_sentinel_is_null [OF u, of _ _ _ "[(''email'', VStr ''a'')]"]
    by (simp add: get_def)
qed

section \<open>Properties of upsert and bulkUpsert\<close>

lemma no_valid_index_no_fields:
  "(\<forall>i \<in> set idxs. \<exists>f \<in> set (idx_fields i). get data f = VUndef)
     \<longleftrightarrow> u_getInstanceValidIndexFields idxs data = None"
proof -
  have "u_getInstanceValidIndexFields idxs data = None
          \<longleftrightarrow> u_getInstanceValidIndexes idxs data = []"
    by (simp add: u_getInstanceValidIndexFields_def split: list.splits)
  then show ?thesis
    by (auto simp: u_getInstanceValidIndexes_def filter_empty_conv list_all_iff)
qed

text \<open>
  C9. On the empty batch \<open>_bulkUpsert\<close> returns the empty list at once: the state of the
  store is the one before the call, and a store that records its calls has recorded none.
\<close>

theorem bulkUpsert_empty_batch:
  "u_bulkUpsert st m [] s = (Inr [], s) \<and>
   u_bulkUpsert (traced st) m [] (s, log) = (Inr [], s, log)"
  by (simp add: u_bulkUpsert_def)

section \<open>Properties of conflict resolution\<close>

text \<open>
  Since the \<open>ctx.throw\<close> after the empty \<open>if\<close> runs on every call,
  \<open>_handleUniqueConstraintError\<close> ends in the conflict error for every model, error and
  option, and never reaches its lookup.
\<close>

lemma handleUniqueConstraintError_throws:
  "u_handleUniqueConstraintError st m err opts s = (Inl (HttpError (unique_message m) 409), s)"
  by (simp add: u_handleUniqueConstraintError_def ctx_throw_def Let_def)

lemma bulkCreate_loop_single_attempt:
  "u_bulkCreate_loop st m opts data conflicts s =
     (case st_bulkCreate st data opts s of
        (Inr u, s1) \<Rightarrow> (Inr (data, conflicts), s1)
      | (Inl e, s1) \<Rightarrow>
          if \<not> is_unique_error e then (Inl (WrappedError e), s1)
          else (Inl (HttpError (unique_message m) 409), s1))"
  by (subst u_bulkCreate_loop.simps)
     (simp add: handleUniqueConstraintError_throws split: prod.splits sum.splits)

text \<open>
  C1, at a failing input. The violation names the attribute \<open>email\<close>, so it decodes to
  itself; the store holds a row for it that is soft-deleted; the caller sets
  \<open>ignoreDuplicates\<close>. The claim has the row reset to its defaults and returned with the
  identity. The code signals the conflict, and the recording store has seen no lookup.
\<close>

theorem handleUniqueConstraintError_soft_deleted_row:
  "u_getUniqueConstraintErrorFields example_user
     \<lparr>err_name = ''SequelizeUniqueConstraintError'',
      err_fields = Some [(''email'', VStr ''x@x.com'')]\<rparr>
     = Some [(''email'', VStr ''x@x.com'')] \<and>
   u_handleUniqueConstraintError
     (traced (fixed_store None
        [[(''id'', VNum 1), (''email'', VStr ''x@x.com''), (''deletedAt'', VDate 1500)]]))
     example_user
     \<lparr>err_name = ''SequelizeUniqueConstraintError'',
      err_fields = Some [(''email'', VStr ''x@x.com'')]\<rparr>
     (Some \<lparr>co_ignoreDuplicates = VBool True, co_include = [], co_fields = None\<rparr>)
     ((), [])
     = (Inl (HttpError ''RestQL: user unique constraint error'' 409), (), [])"
  by (simp add: handleUniqueConstraintError_throws unique_message_def
        u_getUniqueConstraintErrorFields_def keys_def example_user_def)

text \<open>
  C5, at a failing input. The store rejects the insert of two records with a violation on
  the email of the first, whose stored row is soft-deleted. The claim has this iteration
  take the first record out of the pending batch and insert again. The code makes the one
  insert and ends in the conflict error: nothing is removed, nothing is retried.
\<close>

theorem bulkCreate_conflict_is_not_retried:
  "u_bulkCreate True
     (traced (fixed_store
        (Some \<lparr>err_name = ''SequelizeUniqueConstraintError'',
                err_fields = Some [(''email'', VStr ''a@x.com'')]\<rparr>)
        [[(''id'', VNum 1), (''email'', VStr ''a@x.com''), (''deletedAt'', VDate 1500)]]))
     example_user
     [[(''email'', VStr ''a@x.com'')], [(''email'', VStr ''b@x.com'')]]
     None ((), [])
     = (Inl (HttpError ''RestQL: user unique constraint error'' 409), (),
        [CBulkCreate [[(''email'', VStr ''a@x.com'')], [(''email'', VStr ''b@x.com'')]] None])"
  by (simp add: u_bulkCreate_def bulkCreate_loop_single_attempt unique_message_def
        is_unique_error_def u_getInstanceValidIndexFields_def u_getInstanceValidIndexes_def
        u_getUniqueIndexes_def u_getIndexes_def get_def example_user_def traced_def
        fixed_store_def)

section \<open>Properties of the batch operations\<close>

lemma those_map_eq_None: "those (map f xs) = None \<longleftrightarrow> (\<exists>x \<in> set xs. f x = None)"
  by (induction xs) (auto split: option.splits)

lemma has_valid_index_has_fields:
  "(\<exists>i \<in> set idxs. \<forall>f \<in> set (idx_fields i). get data f \<noteq> VUndef)
     \<longleftrightarrow> u_getInstanceValidIndexFields idxs data \<noteq> None"
  unfolding no_valid_index_no_fields [symmetric] by auto

lemma heterogeneous_invalid:
  assumes "r1 \<in> set data" and "r2 \<in> set data" and "set (keys r1) \<noteq> set (keys r2)"
  shows "\<not> list_all (\<lambda>item. item = sort (keys data0)) (map (\<lambda>row. sort (keys row)) data)"
proof
  assume "list_all (\<lambda>item. item = sort (keys data0)) (map (\<lambda>row. sort (keys row)) data)"
  then have all: "\<forall>r \<in> set data. sort (keys r) = sort (keys data0)"
    by (simp add: list_all_iff)
  from all assms(1) have "set (sort (keys r1)) = set (sort (keys data0))" by simp
  moreover from all assms(2) have "set (sort (keys r2)) = set (sort (keys data0))" by simp
  ultimately show False using assms(3) by simp
qed

lemma bulkCreate_first_call:
  assumes "\<forall>r \<in> set data. \<exists>i \<in> set (u_getUniqueIndexes m).
             \<forall>f \<in> set (idx_fields i). get r f \<noteq> VUndef"
  shows "\<exists>rest. snd (snd (u_bulkCreate this_ctx (traced st) m data opts (s, []))) =
           CBulkCreate data opts # rest"
proof -
  from assms have "those (map (u_getInstanceValidIndexFields (u_getUniqueIndexes m)) data) \<noteq> None"
    by (simp add: those_map_eq_None has_valid_index_has_fields)
  then obtain ids where
    "those (map (u_getInstanceValidIndexFields (u_getUniqueIndexes m)) data) = Some ids"
    by blast
  then show ?thesis
    by (simp add: u_bulkCreate_def bulkCreate_loop_single_attempt traced_def ctx_throw_def
          split: prod.splits sum.splits)
qed

text \<open>
  C2, as the code has it. \<open>_bulkUpsert\<close> rejects a batch whose records do not all have
  the same set of field names with status 400 before it calls the store: the state of the
  store is the one before the call. \<open>_bulkCreate\<close> does not compare the field names of
  the records. It stops before any call to the store only when some record has no unique
  index with all fields present; when every record has one, the batch goes to the bulk
  insert of the store as it is.
\<close>

theorem bulkUpsert_validates_bulkCreate_does_not:
  "(r1 \<in> set data \<and> r2 \<in> set data \<and> set (keys r1) \<noteq> set (keys r2) \<longrightarrow>
      u_bulkUpsert st m data s =
        (Inl (HttpError ''RestQL: array elements have different attributes'' 400), s) \<and>
      snd (snd (u_bulkUpsert (traced st) m data (s, []))) = []) \<and>
   ((\<exists>r \<in> set data'. \<forall>i \<in> set (u_getUniqueIndexes m). \<exists>f \<in> set (idx_fields i). get r f = VUndef) \<longrightarrow>
      isl (fst (u_bulkCreate this_ctx st m data' opts s)) \<and>
      snd (u_bulkCreate this_ctx st m data' opts s) = s) \<and>
   ((\<forall>r \<in> set data''. \<exists>i \<in> set (u_getUniqueIndexes m). \<forall>f \<in> set (idx_fields i). get r f \<noteq> VUndef) \<longrightarrow>
      (\<exists>rest. snd (snd (u_bulkCreate this_ctx (traced st) m data'' opts (s, []))) =
         CBulkCreate data'' opts # rest))"
proof (intro conjI impI)
  assume h: "r1 \<in> set data \<and> r2 \<in> set data \<and> set (keys r1) \<noteq> set (keys r2)"
  then obtain data0 rest where d: "data = data0 # rest"
    by (cases data) auto
  have rejected: "u_bulkUpsert st' m data s' =
      (Inl (HttpError ''RestQL: array elements have different attributes'' 400), s')"
    for st' :: "'x store" and s'
  proof -
    have "\<not> list_all (\<lambda>item. item = sort (keys data0))
                 (map (\<lambda>row. sort (keys row)) (data0 # rest))"
      using heterogeneous_invalid [of r1 "data0 # rest" r2 data0] h unfolding d by blast
    then show ?thesis
      by (simp add: u_bulkUpsert_def d Let_def ctx_throw_def)
  qed
  show "u_bulkUpsert st m data s =
      (Inl (HttpError ''RestQL: array elements have different attributes'' 400), s)"
    by (rule rejected)
  show "snd (snd (u_bulkUpsert (traced st) m data (s, []))) = []"
    by (simp add: rejected)
next
  assume "\<exists>r \<in> set data'. \<forall>i \<in> set (u_getUniqueIndexes m).
            \<exists>f \<in> set (idx_fields i). get r f = VUndef"
  then have none: "those (map (u_getInstanceValidIndexFields (u_getUniqueIndexes m)) data') = None"
    by (simp add: those_map_eq_None no_valid_index_no_fields)
  show "isl (fst (u_bulkCreate this_ctx st m data' opts s))"
    by (simp add: u_bulkCreate_def none ctx_throw_def)
  show "snd (u_bulkCreate this_ctx st m data' opts s) = s"
    by (simp add: u_bulkCreate_def none)
next
  assume "\<forall>r \<in> set data''. \<exists>i \<in> set (u_getUniqueIndexes m).
            \<forall>f \<in> set (idx_fields i). get r f \<noteq> VUndef"
  then show "\<exists>rest. snd (snd (u_bulkCreate this_ctx (traced st) m data'' opts (s, []))) =
      CBulkCreate data'' opts # rest"
    by (rule bulkCreate_first_call)
qed

text \<open>
  C2 as stated fails for \<open>_bulkCreate\<close>: the two records of this batch have different
  field names, each has the email of the unique index, and the batch is inserted.
\<close>

theorem bulkCreate_heterogeneous_counterexample:
  "set (keys [(''email'', VStr ''a@x.com'')]) \<noteq>
     set (keys [(''email'', VStr ''b@x.com''), (''name'', VStr ''B'')]) \<and>
   u_bulkCreate True (traced (fixed_store None [])) example_user
     [[(''email'', VStr ''a@x.com'')], [(''email'', VStr ''b@x.com''), (''name'', VStr ''B'')]]
     None ((), [])
   = (Inr [], (),
      [CBulkCreate
         [[(''email'', VStr ''a@x.com'')], [(''email'', VStr ''b@x.com''), (''name'', VStr ''B'')]]
         None,
       CFindAll \<lparr>fa_where = WhereOr [Some [(''email'', VStr ''a@x.com'')],
                                       Some [(''email'', VStr ''b@x.com'')]],
                 fa_order = [(''id'', ''ASC'')]\<rparr>])"
  by (simp add: u_bulkCreate_def bulkCreate_loop_single_attempt keys_def
        u_getInstanceValidIndexFields_def u_getInstanceValidIndexes_def
        u_getUniqueIndexes_def u_getIndexes_def get_def example_user_def traced_def
        fixed_store_def)

theorem bulkUpsert_validates_bulkCreate_does_not_witness:
  "u_bulkUpsert (fixed_store None []) example_user
     [[(''email'', VStr ''a@x.com'')], [(''email'', VStr ''b@x.com''), (''name'', VStr ''B'')]] ()
     = (Inl (HttpError ''RestQL: array elements have different attributes'' 400), ()) \<and>
   snd (snd (u_bulkUpsert (traced (fixed_store None [])) example_user
     [[(''email'', VStr ''a@x.com'')], [(''email'', VStr ''b@x.com''), (''name'', VStr ''B'')]]
     ((), []))) = [] \<and>
   isl (fst (u_bulkCreate True (fixed_store None []) example_user
     [[(''email'', VStr ''a@x.com'')], [(''name'', VStr ''B'')]] None ())) \<and>
   (\<exists>rest. snd (snd (u_bulkCreate True (traced (fixed_store None [])) example_user
     [[(''email'', VStr ''a@x.com'')], [(''email'', VStr ''b@x.com''), (''name'', VStr ''B'')]]
     None ((), []))) =
     CBulkCreate
       [[(''email'', VStr ''a@x.com'')], [(''email'', VStr ''b@x.com''), (''name'', VStr ''B'')]]
       None # rest)"
  using bulkUpsert_validates_bulkCreate_does_not
    [of "[(''email'', VStr ''a@x.com'')]"
        "[[(''email'', VStr ''a@x.com'')], [(''email'', VStr ''b@x.com''), (''name'', VStr ''B'')]]"
        "[(''email'', VStr ''b@x.com''), (''name'', VStr ''B'')]"
        "fixed_store None []" example_user "()"
        "[[(''email'', VStr ''a@x.com'')], [(''name'', VStr ''B'')]]"
        True None
        "[[(''email'', VStr ''a@x.com'')], [(''email'', VStr ''b@x.com''), (''name'', VStr ''B'')]]"]
  by (simp add: keys_def u_getUniqueIndexes_def u_getIndexes_def get_def example_user_def)

section \<open>What the write operations hand to the store\<close>

lemma strip_id_no_truthy_id: "\<not> truthy (get (strip_id data) ''id'')"
  by (simp add: strip_id_def get_delete_same)

lemma same_fields_same_sorted_keys:
  assumes "distinct (keys r)" and "distinct (keys r')" and "set (keys r) = set (keys r')"
  shows "sort (keys r) = sort (keys r')"
  using assms by (intro sorted_distinct_set_unique) simp_all

lemma create_writes_no_truthy_id:
  "list_all (\<lambda>c. list_all (\<lambda>r. \<not> truthy (get r ''id'')) (written c))
     (snd (snd (u_create (traced st) m data opts (s, []))))"
  by (simp add: u_create_def Let_def traced_def handleUniqueConstraintError_throws
        strip_id_no_truthy_id split: prod.splits sum.splits)

lemma update_writes_no_truthy_id:
  "list_all (\<lambda>c. list_all (\<lambda>r. \<not> truthy (get r ''id'')) (written c))
     (snd (snd (u_update (traced st) m data uopts (s, []))))"
  by (simp add: u_update_def update_catch_def traced_def handleUniqueConstraintError_throws
        strip_id_no_truthy_id split: prod.splits sum.splits)

lemma upsert_first_call:
  assumes "\<exists>i \<in> set (u_getUniqueIndexes m). \<forall>f \<in> set (idx_fields i). get data f \<noteq> VUndef"
  shows "\<exists>rest. snd (snd (u_upsert (traced st) m data (s, []))) = CUpsert data # rest"
proof -
  from assms obtain w where
    "u_getInstanceValidIndexFields (u_getUniqueIndexes m) data = Some w"
    by (auto simp: has_valid_index_has_fields)
  then show ?thesis
    by (simp add: u_upsert_def Let_def traced_def ctx_throw_def
          split: prod.splits sum.splits option.splits bool.splits)
qed

lemma bulkUpsert_first_call:
  assumes "batch \<noteq> []"
    and "\<forall>r \<in> set batch. distinct (keys r) \<and> set (keys r) = set (keys (hd batch))"
    and "\<forall>r \<in> set batch. \<exists>i \<in> set (u_getUniqueIndexes m).
           \<forall>f \<in> set (idx_fields i). get r f \<noteq> VUndef"
  shows "\<exists>rest. snd (snd (u_bulkUpsert (traced st) m batch (s, []))) =
           CBulkCreate batch
             (Some \<lparr>updateOnDuplicate = Some (filter (\<lambda>key. key \<noteq> ''id'') (keys (hd batch)))\<rparr>)
           # rest"
proof -
  from assms(1) obtain data0 tl where b: "batch = data0 # tl"
    by (cases batch) auto
  from assms(2) have "\<forall>r \<in> set batch. sort (keys r) = sort (keys data0)"
    by (auto simp: b intro: same_fields_same_sorted_keys)
  then have valid: "list_all (\<lambda>item. item = sort (keys data0))
                      (map (\<lambda>row. sort (keys row)) (data0 # tl))"
    by (simp add: list_all_iff b)
  from assms(3) have "those (map (u_getInstanceValidIndexFields (u_getUniqueIndexes m)) batch) \<noteq> None"
    by (simp add: those_map_eq_None has_valid_index_has_fields)
  then obtain ids where
    ids: "those (map (u_getInstanceValidIndexFields (u_getUniqueIndexes m)) (data0 # tl)) = Some ids"
    by (auto simp: b)
  have "\<exists>rest. snd (snd (u_bulkUpsert (traced st) m (data0 # tl) (s, []))) =
           CBulkCreate (data0 # tl)
             (Some \<lparr>updateOnDuplicate = Some (filter (\<lambda>key. key \<noteq> ''id'') (keys data0))\<rparr>)
           # rest"
    unfolding u_bulkUpsert_def list.case Let_def ids
    using valid
    by (simp add: traced_def ctx_throw_def split: prod.splits sum.splits
          del: those.simps list.map)
  then show ?thesis by (simp add: b)
qed

lemma strip_id_keeps_others: "key \<noteq> ''id'' \<Longrightarrow> get (strip_id data) key = get data key"
  by (simp add: strip_id_def get_def delete_conv')

lemma create_first_call:
  "\<exists>rest. snd (snd (u_create (traced st) m data opts (s, []))) =
     CCreate (strip_id data) opts # rest"
  by (simp add: u_create_def Let_def traced_def handleUniqueConstraintError_throws
        split: prod.splits sum.splits)

lemma update_first_call:
  "\<exists>rest. snd (snd (u_update (traced st) m data uopts (s, []))) =
     CUpdate (strip_id data) uopts # rest"
  by (simp add: u_update_def update_catch_def traced_def handleUniqueConstraintError_throws
        split: prod.splits sum.splits)

text \<open>
  C3, as the code has it. \<open>_create\<close> and \<open>_update\<close> delete the \<open>id\<close> of the record when
  its value is truthy, before they call the store: the first call they make is the insert,
  or the update, of the record without that \<open>id\<close>, every other field as it came, and no
  record that they hand to the store in any call carries a truthy \<open>id\<close>. A record whose
  \<open>id\<close> is not truthy is handed over as it came. \<open>_upsert\<close>, \<open>_bulkUpsert\<close> and
  \<open>_bulkCreate\<close> delete nothing: when they reach the store, the first call they make
  hands over the record, or the batch, as it came, \<open>id\<close> included, and \<open>_bulkUpsert\<close> only
  leaves \<open>id\<close> out of the fields to update on a duplicate.
\<close>

theorem create_update_strip_id_others_keep_it:
  "(\<exists>rest. snd (snd (u_create (traced st) m data opts (s, []))) =
      CCreate (strip_id data) opts # rest) \<and>
   (\<exists>rest. snd (snd (u_update (traced st) m data uopts (s, []))) =
      CUpdate (strip_id data) uopts # rest) \<and>
   \<not> truthy (get (strip_id data) ''id'') \<and>
   (key \<noteq> ''id'' \<longrightarrow> get (strip_id data) key = get data key) \<and>
   (truthy (get data ''id'') \<longrightarrow> strip_id data = AList.delete ''id'' data) \<and>
   (\<not> truthy (get data ''id'') \<longrightarrow> strip_id data = data) \<and>
   list_all (\<lambda>c. list_all (\<lambda>r. \<not> truthy (get r ''id'')) (written c))
     (snd (snd (u_create (traced st) m data opts (s, [])))) \<and>
   list_all (\<lambda>c. list_all (\<lambda>r. \<not> truthy (get r ''id'')) (written c))
     (snd (snd (u_update (traced st) m data uopts (s, [])))) \<and>
   ((\<exists>i \<in> set (u_getUniqueIndexes m). \<forall>f \<in> set (idx_fields i). get data f \<noteq> VUndef) \<longrightarrow>
      (\<exists>rest. snd (snd (u_upsert (traced st) m data (s, []))) = CUpsert data # rest)) \<and>
   (batch \<noteq> [] \<and>
    (\<forall>r \<in> set batch. distinct (keys r) \<and> set (keys r) = set (keys (hd batch))) \<and>
    (\<forall>r \<in> set batch. \<exists>i \<in> set (u_getUniqueIndexes m).
        \<forall>f \<in> set (idx_fields i). get r f \<noteq> VUndef) \<longrightarrow>
      (\<exists>rest. snd (snd (u_bulkUpsert (traced st) m batch (s, []))) =
         CBulkCreate batch
           (Some \<lparr>updateOnDuplicate = Some (filter (\<lambda>key. key \<noteq> ''id'') (keys (hd batch)))\<rparr>)
         # rest)) \<and>
   ((\<forall>r \<in> set pending. \<exists>i \<in> set (u_getUniqueIndexes m).
        \<forall>f \<in> set (idx_fields i). get r f \<noteq> VUndef) \<longrightarrow>
      (\<exists>rest. snd (snd (u_bulkCreate this_ctx (traced st) m pending bopts (s, []))) =
         CBulkCreate pending bopts # rest))"
proof -
  have "key \<noteq> ''id'' \<longrightarrow> get (strip_id data) key = get data key"
    by (simp add: strip_id_keeps_others)
  moreover have "truthy (get data ''id'') \<longrightarrow> strip_id data = AList.delete ''id'' data"
    and "\<not> truthy (get data ''id'') \<longrightarrow> strip_id data = data"
    by (simp_all add: strip_id_def)
  ultimately show ?thesis
    using create_first_call [of st m data opts s]
      update_first_call [of st m data uopts s]
      strip_id_no_truthy_id [of data]
      create_writes_no_truthy_id [of st m data opts s]
      update_writes_no_truthy_id [of st m data uopts s]
      upsert_first_call [of m data st s]
      bulkUpsert_first_call [of batch m st s]
      bulkCreate_first_call [of pending m this_ctx st bopts s]
    by blast
qed

text \<open>
  C3 as stated fails for \<open>_upsert\<close>: the record comes with \<open>id\<close> 5, the call to the
  store carries that \<open>id\<close>, and the identity of the lookup is the \<open>id\<close> itself.
\<close>

theorem upsert_keeps_client_id_counterexample:
  "u_upsert
     (traced (fixed_store None
        [[(''id'', VNum 5), (''email'', VStr ''x@x.com''), (''deletedAt'', VNull)]]))
     example_user [(''id'', VNum 5), (''email'', VStr ''x@x.com'')] ((), [])
   = (Inr (True, Some [(''id'', VNum 5), (''email'', VStr ''x@x.com''), (''deletedAt'', VNull)]),
      (),
      [CUpsert [(''id'', VNum 5), (''email'', VStr ''x@x.com'')],
       CFind \<lparr>fq_where = Some [(''id'', VNum 5)], fq_paranoid = True\<rparr>])"
  by (simp add: u_upsert_def Let_def u_getInstanceValidIndexFields_def
        u_getInstanceValidIndexes_def u_getUniqueIndexes_def u_getIndexes_def get_def
        isDeleted_def example_user_def traced_def fixed_store_def)

theorem create_update_strip_id_others_keep_it_witness:
  "(\<exists>rest. snd (snd (u_create (traced (fixed_store None [])) example_user
        [(''id'', VNum 5), (''email'', VStr ''x@x.com'')] None ((), []))) =
      CCreate [(''email'', VStr ''x@x.com'')] None # rest) \<and>
   (\<exists>rest. snd (snd (u_update (traced (fixed_store None [])) example_user
        [(''id'', VNum 5), (''email'', VStr ''x@x.com'')]
        \<lparr>uo_where = Some [(''email'', VStr ''x@x.com'')]\<rparr> ((), []))) =
      CUpdate [(''email'', VStr ''x@x.com'')]
        \<lparr>uo_where = Some [(''email'', VStr ''x@x.com'')]\<rparr> # rest) \<and>
   get (strip_id [(''id'', VNum 5), (''email'', VStr ''x@x.com'')]) ''email'' = VStr ''x@x.com'' \<and>
   list_all (\<lambda>c. list_all (\<lambda>r. \<not> truthy (get r ''id'')) (written c))
     (snd (snd (u_create (traced (fixed_store None [])) example_user
        [(''id'', VNum 5), (''email'', VStr ''x@x.com'')] None ((), [])))) \<and>
   list_all (\<lambda>c. list_all (\<lambda>r. \<not> truthy (get r ''id'')) (written c))
     (snd (snd (u_update (traced (fixed_store None [])) example_user
        [(''id'', VNum 5), (''email'', VStr ''x@x.com'')]
        \<lparr>uo_where = Some [(''email'', VStr ''x@x.com'')]\<rparr> ((), [])))) \<and>
   (\<exists>rest. snd (snd (u_upsert (traced (fixed_store None [])) example_user
        [(''id'', VNum 5), (''email'', VStr ''x@x.com'')] ((), []))) =
      CUpsert [(''id'', VNum 5), (''email'', VStr ''x@x.com'')] # rest) \<and>
   (\<exists>rest. snd (snd (u_bulkUpsert (traced (fixed_store None [])) example_user
        [[(''id'', VNum 5), (''email'', VStr ''a@x.com'')],
         [(''id'', VNum 6), (''email'', VStr ''b@x.com'')]] ((), []))) =
      CBulkCreate
        [[(''id'', VNum 5), (''email'', VStr ''a@x.com'')],
         [(''id'', VNum 6), (''email'', VStr ''b@x.com'')]]
        (Some \<lparr>updateOnDuplicate = Some [''email'']\<rparr>) # rest) \<and>
   (\<exists>rest. snd (snd (u_bulkCreate True (traced (fixed_store None [])) example_user
        [[(''id'', VNum 5), (''email'', VStr ''a@x.com'')],
         [(''id'', VNum 6), (''email'', VStr ''b@x.com''), (''name'', VStr ''B'')]]
        None ((), []))) =
      CBulkCreate
        [[(''id'', VNum 5), (''email'', VStr ''a@x.com'')],
         [(''id'', VNum 6), (''email'', VStr ''b@x.com''), (''name'', VStr ''B'')]] None # rest)"
proof -
  let ?data = "[(''id'', VNum 5), (''email'', VStr ''x@x.com'')]"
  let ?batch = "[[(''id'', VNum 5), (''email'', VStr ''a@x.com'')],
                 [(''id'', VNum 6), (''email'', VStr ''b@x.com'')]]"
  let ?pending = "[[(''id'', VNum 5), (''email'', VStr ''a@x.com'')],
                   [(''id'', VNum 6), (''email'', VStr ''b@x.com''), (''name'', VStr ''B'')]]"
  have stripped: "strip_id ?data = [(''email'', VStr ''x@x.com'')]"
    by (simp add: strip_id_def get_def)
  have indexes: "u_getUniqueIndexes example_user =
      [\<lparr>idx_name = ''PRIMARY'', idx_unique = True, idx_primary = True, idx_fields = [''id'']\<rparr>,
       \<lparr>idx_name = ''user_email'', idx_unique = True, idx_primary = False,
        idx_fields = [''email'']\<rparr>]"
    by (simp add: u_getUniqueIndexes_def u_getIndexes_def example_user_def)
  have identity: "\<exists>i \<in> set (u_getUniqueIndexes example_user).
      \<forall>f \<in> set (idx_fields i). get ?data f \<noteq> VUndef"
    by (simp add: indexes get_def)
  have homogeneous: "?batch \<noteq> [] \<and>
      (\<forall>r \<in> set ?batch. distinct (keys r) \<and> set (keys r) = set (keys (hd ?batch))) \<and>
      (\<forall>r \<in> set ?batch. \<exists>i \<in> set (u_getUniqueIndexes example_user).
          \<forall>f \<in> set (idx_fields i). get r f \<noteq> VUndef)"
    by (simp add: indexes get_def keys_def)
  have identities: "\<forall>r \<in> set ?pending. \<exists>i \<in> set (u_getUniqueIndexes example_user).
      \<forall>f \<in> set (idx_fields i). get r f \<noteq> VUndef"
    by (simp add: indexes get_def)
  have fields: "filter (\<lambda>key. key \<noteq> ''id'') (keys (hd ?batch)) = [''email'']"
    by (simp add: keys_def)
  have email: "get [(''email'', VStr ''x@x.com'')] ''email'' = VStr ''x@x.com''"
    by (simp add: get_def)
  note inst = create_update_strip_id_others_keep_it
    [of "fixed_store None []" example_user ?data None "()"
        "\<lparr>uo_where = Some [(''email'', VStr ''x@x.com'')]\<rparr>" "''email''"
        ?batch ?pending True None, unfolded stripped fields]
  from inst identity homogeneous identities email show ?thesis
    unfolding stripped by blast
qed

section \<open>Properties of the upsert middleware\<close>










section \<open>Properties of the existing-row partitioner\<close>

lemma findIndex_Some:
  "findIndex P xs = Some k \<Longrightarrow> k < length xs \<and> P (xs ! k) \<and> find P xs = Some (xs ! k)"
  by (induction xs arbitrary: k) (auto split: if_splits)

lemma findIndex_None: "findIndex P xs = None \<Longrightarrow> find P xs = None"
  by (induction xs) (auto split: if_splits)

lemma identity_fields_fold:
  assumes "\<forall>key \<in> set (keys acc). get acc key = get d key"
  shows "\<forall>key \<in> set (keys (fold (\<lambda>field flds. AList.update field (get d field) flds) fs acc)).
           get (fold (\<lambda>field flds. AList.update field (get d field) flds) fs acc) key = get d key"
  using assms
proof (induction fs arbitrary: acc)
  case Nil
  then show ?case by simp
next
  case (Cons f fs)
  have "\<forall>key \<in> set (keys (AList.update f (get d f) acc)).
          get (AList.update f (get d f) acc) key = get d key"
    using Cons.prems by (auto simp: keys_def get_update dom_update)
  from Cons.IH [OF this] show ?case by simp
qed

lemma identity_agrees_with_record:
  assumes "u_getInstanceValidIndexFields idxs d = Some ident"
  shows "\<forall>key \<in> set (keys ident). get ident key = get d key"
proof (cases "u_getInstanceValidIndexes idxs d")
  case Nil
  with assms show ?thesis by (simp add: u_getInstanceValidIndexFields_def)
next
  case (Cons i rest)
  with assms have
    "ident = fold (\<lambda>field flds. AList.update field (get d field) flds) (idx_fields i) []"
    by (simp add: u_getInstanceValidIndexFields_def)
  then show ?thesis
    using identity_fields_fold [of "[]" d "idx_fields i"] by (simp add: keys_def)
qed

lemma at_most_one_tail:
  assumes "\<forall>row \<in> set data. length (filter (F row) (p # ps)) \<le> 1"
    and "set data' \<subseteq> set data"
  shows "\<forall>row \<in> set data'. length (filter (F row) ps) \<le> 1"
proof
  fix row
  assume "row \<in> set data'"
  with assms have "length (filter (F row) (p # ps)) \<le> 1" by blast
  moreover have "length (filter (F row) ps) \<le> length (filter (F row) (p # ps))" by simp
  ultimately show "length (filter (F row) ps) \<le> 1" by (rule order_trans [rotated])
qed

lemma findIndex_throwing_pure:
  "findIndex_throwing (\<lambda>row. Inr (P row)) xs = Inr (findIndex P xs)"
  by (induction xs) simp_all

lemma findIndex_throwing_always:
  "findIndex_throwing (\<lambda>row. Inl e) xs = (if xs = [] then Inr None else Inl e)"
  by (cases xs) simp_all

lemma classifyRows_with_identity:
  "classifyRows ((Some f, or_row) # ors) data existingRows newRows =
     (case findIndex (\<lambda>row. list_all (\<lambda>key. strict_eq (get row key) (get or_row key)) (keys f))
             data of
        Some index \<Rightarrow>
          classifyRows ors (splice1 index data) (existingRows @ [data ! index]) newRows
      | None \<Rightarrow> classifyRows ors data existingRows (newRows @ [or_row]))"
  by (simp add: findIndex_throwing_pure)

lemma classifyRows_without_identity:
  "classifyRows ((None, or_row) # ors) data existingRows newRows =
     (if data = [] then classifyRows ors data existingRows (newRows @ [or_row])
      else Inl TypeError)"
  by (simp add: findIndex_throwing_always)

lemma classifyRows_no_rows:
  "classifyRows preds [] existingRows newRows = Inr (existingRows, newRows @ map snd preds)"
  by (induction preds arbitrary: newRows) auto

lemma remove1_found:
  "findIndex P xs = Some k \<Longrightarrow> remove1 (xs ! k) xs = splice1 k xs"
proof (induction xs arbitrary: k)
  case Nil
  then show ?case by simp
next
  case (Cons x xs)
  show ?case
  proof (cases "P x")
    case True
    with Cons.prems show ?thesis by (simp add: splice1_def)
  next
    case False
    with Cons.prems obtain j where j: "findIndex P xs = Some j" "k = Suc j"
      by auto
    from findIndex_Some [OF j(1)] have "P (xs ! j)" by simp
    with False have "x \<noteq> xs ! j" by auto
    with Cons.IH [OF j(1)] j(2) show ?thesis by (simp add: splice1_def)
  qed
qed

lemma classifyRows_taking:
  assumes "\<forall>(flds, record) \<in> set preds. \<forall>ident. flds = Some ident \<longrightarrow>
             (\<forall>key \<in> set (keys ident). get ident key = get record key)"
  shows "classifyRows preds data ex nw =
           (case partition_taking preds data of
              Inl e \<Rightarrow> Inl e
            | Inr (existing, new) \<Rightarrow> Inr (ex @ existing, nw @ new))"
  using assms
proof (induction preds arbitrary: data ex nw)
  case Nil
  then show ?case by simp
next
  case (Cons p ps)
  obtain flds rcd where p: "p = (flds, rcd)" by (cases p)
  have agree: "\<forall>(flds, record) \<in> set ps. \<forall>ident. flds = Some ident \<longrightarrow>
                 (\<forall>key \<in> set (keys ident). get ident key = get record key)"
    using Cons.prems by simp
  note IH = Cons.IH [OF agree]
  show ?case
  proof (cases flds)
    case None
    then show ?thesis
      by (simp add: p classifyRows_without_identity classifyRows_no_rows
            del: classifyRows.simps(2))
  next
    case (Some ident)
    have same: "(\<lambda>row. list_all (\<lambda>key. strict_eq (get row key) (get rcd key)) (keys ident))
                  = identity_matches ident"
      using Cons.prems by (auto simp: p Some identity_matches_def list_all_iff)
    show ?thesis
    proof (cases "findIndex (identity_matches ident) data")
      case None
      then have "find (identity_matches ident) data = None"
        by (rule findIndex_None)
      with None show ?thesis
        by (simp add: p Some classifyRows_with_identity same IH
              del: classifyRows.simps(2) split: sum.splits)
    next
      case found: (Some k)
      then have "find (identity_matches ident) data = Some (data ! k)"
        using findIndex_Some [of "identity_matches ident" data k] by simp
      with found show ?thesis
        by (simp add: p Some classifyRows_with_identity same IH remove1_found
              del: classifyRows.simps(2) split: sum.splits)
    qed
  qed
qed

lemma find_remove1: "\<not> Q r \<Longrightarrow> find Q (remove1 r xs) = find Q xs"
  by (induction xs) auto

lemma find_Some_holds: "find P xs = Some x \<Longrightarrow> x \<in> set xs \<and> P x"
  by (induction xs) (auto split: if_splits)

lemma partition_taking_spec:
  assumes "\<forall>row \<in> set data.
             length (filter (\<lambda>(ident, record). identity_matches ident row) preds) \<le> 1"
  shows "partition_taking (map (\<lambda>(ident, record). (Some ident, record)) preds) data =
           Inr (partition_spec preds data)"
  using assms
proof (induction preds arbitrary: data)
  case Nil
  then show ?case by (simp add: partition_spec_def map_filter_simps)
next
  case (Cons p ps)
  obtain ident rcd where p: "p = (ident, rcd)" by (cases p)
  show ?case
  proof (cases "find (identity_matches ident) data")
    case None
    have "\<forall>row \<in> set data.
            length (filter (\<lambda>(ident, record). identity_matches ident row) ps) \<le> 1"
      using at_most_one_tail [OF Cons.prems subset_refl] .
    from Cons.IH [OF this] show ?thesis
      by (simp add: p None partition_spec_def map_filter_simps)
  next
    case (Some row)
    then have row: "row \<in> set data" "identity_matches ident row"
      using find_Some_holds [of "identity_matches ident" data row] by simp_all
    have others: "\<forall>(ident', record') \<in> set ps. \<not> identity_matches ident' row"
    proof -
      from row(1) Cons.prems have
        "length (filter (\<lambda>(ident, record). identity_matches ident row) (p # ps)) \<le> 1"
        by blast
      with row(2) have "filter (\<lambda>(ident, record). identity_matches ident row) ps = []"
        by (simp add: p)
      then show ?thesis by (auto simp: filter_empty_conv)
    qed
    have unchanged: "find (identity_matches ident') (remove1 row data)
                       = find (identity_matches ident') data"
      if "(ident', rcd') \<in> set ps" for ident' rcd'
      using that others by (intro find_remove1) auto
    have spec_same: "partition_spec ps (remove1 row data) = partition_spec ps data"
    proof -
      have "List.map_filter (\<lambda>(ident, record). find (identity_matches ident) (remove1 row data)) ps
              = List.map_filter (\<lambda>(ident, record). find (identity_matches ident) data) ps"
        unfolding List.map_filter_def
        by (intro arg_cong2 [where f = map] filter_cong map_cong refl) (auto simp: unchanged)
      moreover have
        "filter (\<lambda>(ident, record). find (identity_matches ident) (remove1 row data) = None) ps
           = filter (\<lambda>(ident, record). find (identity_matches ident) data = None) ps"
        by (intro filter_cong refl) (auto simp: unchanged)
      ultimately show ?thesis by (simp add: partition_spec_def)
    qed
    have "\<forall>r \<in> set (remove1 row data).
            length (filter (\<lambda>(ident, record). identity_matches ident r) ps) \<le> 1"
      using at_most_one_tail [OF Cons.prems set_remove1_subset] .
    from Cons.IH [OF this] have
      "partition_taking (map (\<lambda>(ident, record). (Some ident, record)) ps) (remove1 row data) =
         Inr (partition_spec ps data)"
      by (simp add: spec_same)
    moreover have "partition_spec (p # ps) data =
        (row # fst (partition_spec ps data), snd (partition_spec ps data))"
      by (simp add: partition_spec_def p Some map_filter_simps)
    ultimately show ?thesis
      by (simp add: p Some split: prod.splits)
  qed
qed

lemma partition_taking_no_rows: "partition_taking preds [] = Inr ([], map snd preds)"
proof (induction preds)
  case Nil
  then show ?case by simp
next
  case (Cons p ps)
  obtain flds rcd where "p = (flds, rcd)" by (cases p)
  with Cons show ?case by (cases flds) simp_all
qed

lemma partition_taking_counts:
  "partition_taking preds rows = Inr (ex, nw) \<Longrightarrow>
     count_list ex row \<le> count_list rows row \<and> length ex + length nw = length preds"
proof (induction preds arbitrary: rows ex nw)
  case Nil
  then show ?case by simp
next
  case (Cons p ps)
  obtain flds rcd where p: "p = (flds, rcd)" by (cases p)
  show ?case
  proof (cases flds)
    case None
    with Cons.prems show ?thesis
      by (auto simp: p split: if_splits)
  next
    case (Some ident)
    show ?thesis
    proof (cases "find (identity_matches ident) rows")
      case None
      with Cons.prems obtain nw' where
        "partition_taking ps rows = Inr (ex, nw')" "nw = rcd # nw'"
        by (auto simp: p Some split: sum.splits)
      with Cons.IH [of rows ex nw'] show ?thesis by simp
    next
      case found: (Some r)
      with Cons.prems obtain ex' where
        sub: "partition_taking ps (remove1 r rows) = Inr (ex', nw)" "ex = r # ex'"
        by (auto simp: p Some split: sum.splits)
      from found have "r \<in> set rows"
        using find_Some_holds [of "identity_matches ident" rows r] by simp
      then have "count_list rows r \<noteq> 0"
        by (simp add: count_list_0_iff)
      with Cons.IH [OF sub(1)] sub(2) show ?thesis
        by (auto simp: p)
    qed
  qed
qed

lemma pair_with_identity:
  "map f xs = map Some ys \<Longrightarrow> map (\<lambda>d. (f d, d)) xs = map (\<lambda>(i, d). (Some i, d)) (zip ys xs)"
  by (induction xs arbitrary: ys) auto

lemma identities_agree_with_records:
  "\<forall>(flds, record) \<in> set (map (\<lambda>d. (u_getInstanceValidIndexFields idxs d, d)) records).
     \<forall>ident. flds = Some ident \<longrightarrow> (\<forall>key \<in> set (keys ident). get ident key = get record key)"
  using identity_agrees_with_record by auto

lemma findExistingRows_single_lookup:
  "snd (snd (u_findExistingRows (traced st) m (BArray records) (s, []))) =
     [CFindAll \<lparr>fa_where = WhereOr (map (u_getInstanceValidIndexFields (u_getUniqueIndexes m))
                                        records),
                fa_order = []\<rparr>]"
  unfolding u_findExistingRows_def Let_def switchByType_body_def
  by (simp add: traced_def comp_def split: prod.splits sum.splits)

lemma findExistingRows_unfolded:
  assumes "st_findAll st
             \<lparr>fa_where = WhereOr (map (u_getInstanceValidIndexFields (u_getUniqueIndexes m)) records),
              fa_order = []\<rparr> s = (Inr rows, s1)"
  shows "u_findExistingRows st m (BArray records) s =
           (if length rows = length records then (Inr (rows, []), s1)
            else (partition_taking
                    (map (\<lambda>d. (u_getInstanceValidIndexFields (u_getUniqueIndexes m) d, d)) records)
                    rows, s1))"
proof -
  let ?f = "u_getInstanceValidIndexFields (u_getUniqueIndexes m)"
  have query: "map fst (map (\<lambda>d. (?f d, d)) records) = map ?f records"
    by (simp add: comp_def)
  have "u_findExistingRows st m (BArray records) s =
      (if length rows = length records then (Inr (rows, []), s1)
       else (classifyRows (map (\<lambda>d. (?f d, d)) records) rows [] [], s1))"
    unfolding u_findExistingRows_def Let_def switchByType_body_def
    by (simp add: query assms del: map_map)
  moreover have "classifyRows (map (\<lambda>d. (?f d, d)) records) rows [] [] =
      partition_taking (map (\<lambda>d. (?f d, d)) records) rows"
    using classifyRows_taking [OF identities_agree_with_records, of "u_getUniqueIndexes m" records rows "[]" "[]"]
    by (simp split: sum.splits)
  ultimately show ?thesis by simp
qed

text \<open>
  C6, as the code has it. \<open>_findExistingRows\<close> computes one identity per record, none for
  a record that has no unique index with all fields present, and makes one lookup for all
  of them, its only call to the store. When the lookup returns as many rows as there are records, the returned rows
  are \<open>existingRows\<close> as they are and \<open>newRows\<close> is empty. Otherwise a returned row serves
  one predicate only: the result is the partition in which each predicate, in input order,
  is matched against the rows that no earlier predicate has taken. Provided every record
  has an identity and every returned row matches the identity of at most one record, that
  is the partition of the specification: a predicate that matches a returned row
  contributes that row to \<open>existingRows\<close> and one that matches none contributes its record
  to \<open>newRows\<close>. When the lookup returns no row, every record of the batch is new, with or
  without identity. Whenever \<open>_findExistingRows\<close> returns, every record is classified once
  and no row is in \<open>existingRows\<close> more often than the lookup returned it.
\<close>

theorem findExistingRows_partition:
  assumes "st_findAll st
             \<lparr>fa_where = WhereOr (map (u_getInstanceValidIndexFields (u_getUniqueIndexes m)) records),
              fa_order = []\<rparr> s = (Inr rows, s1)"
  shows "snd (snd (u_findExistingRows (traced st) m (BArray records) (s, []))) =
           [CFindAll \<lparr>fa_where = WhereOr (map (u_getInstanceValidIndexFields
                                                  (u_getUniqueIndexes m)) records),
                      fa_order = []\<rparr>] \<and>
         (length rows = length records \<longrightarrow>
            u_findExistingRows st m (BArray records) s = (Inr (rows, []), s1)) \<and>
         (length rows \<noteq> length records \<longrightarrow>
            u_findExistingRows st m (BArray records) s =
              (partition_taking
                 (map (\<lambda>d. (u_getInstanceValidIndexFields (u_getUniqueIndexes m) d, d)) records)
                 rows, s1)) \<and>
         (length rows \<noteq> length records \<and>
          map (u_getInstanceValidIndexFields (u_getUniqueIndexes m)) records = map Some idents \<and>
          (\<forall>row \<in> set rows.
             length (filter (\<lambda>(ident, record). identity_matches ident row) (zip idents records)) \<le> 1)
          \<longrightarrow> u_findExistingRows st m (BArray records) s =
                (Inr (partition_spec (zip idents records) rows), s1)) \<and>
         (rows = [] \<and> records \<noteq> [] \<longrightarrow>
            u_findExistingRows st m (BArray records) s = (Inr ([], records), s1)) \<and>
         (fst (u_findExistingRows st m (BArray records) s) = Inr (existingRows, newRows) \<longrightarrow>
            count_list existingRows row \<le> count_list rows row \<and>
            length existingRows + length newRows = length records)"
proof (intro conjI impI)
  show "snd (snd (u_findExistingRows (traced st) m (BArray records) (s, []))) =
      [CFindAll \<lparr>fa_where = WhereOr (map (u_getInstanceValidIndexFields
                                             (u_getUniqueIndexes m)) records),
                 fa_order = []\<rparr>]"
    by (rule findExistingRows_single_lookup)
  note unfolded = findExistingRows_unfolded [OF assms]
  let ?f = "u_getInstanceValidIndexFields (u_getUniqueIndexes m)"
  show "u_findExistingRows st m (BArray records) s = (Inr (rows, []), s1)"
    if "length rows = length records"
    using that by (simp add: unfolded)
  show "u_findExistingRows st m (BArray records) s =
      (partition_taking (map (\<lambda>d. (?f d, d)) records) rows, s1)"
    if "length rows \<noteq> length records"
    using that by (simp add: unfolded)
  show "u_findExistingRows st m (BArray records) s =
      (Inr (partition_spec (zip idents records) rows), s1)"
    if h: "length rows \<noteq> length records \<and> map ?f records = map Some idents \<and>
      (\<forall>row \<in> set rows.
         length (filter (\<lambda>(ident, record). identity_matches ident row) (zip idents records)) \<le> 1)"
  proof -
    from h have "map (\<lambda>d. (?f d, d)) records =
        map (\<lambda>(ident, record). (Some ident, record)) (zip idents records)"
      by (intro pair_with_identity) simp
    moreover from h have
      "partition_taking (map (\<lambda>(ident, record). (Some ident, record)) (zip idents records)) rows =
         Inr (partition_spec (zip idents records) rows)"
      by (intro partition_taking_spec) simp
    ultimately show ?thesis
      using h by (simp add: unfolded)
  qed
  show "u_findExistingRows st m (BArray records) s = (Inr ([], records), s1)"
    if h: "rows = [] \<and> records \<noteq> []"
    using h by (simp add: unfolded partition_taking_no_rows comp_def)
  assume r: "fst (u_findExistingRows st m (BArray records) s) = Inr (existingRows, newRows)"
  show "count_list existingRows row \<le> count_list rows row"
    and "length existingRows + length newRows = length records"
    using r partition_taking_counts [of "map (\<lambda>d. (?f d, d)) records" rows existingRows newRows row]
    by (auto simp: unfolded split: if_splits)
qed

text \<open>
  C6 as stated fails when two records of the batch have the same identity. The predicate
  of each matches the returned row, so that the partition of the specification has the row
  twice in \<open>existingRows\<close>; in the code the first record has taken the row and the second
  goes to \<open>newRows\<close>.
\<close>

theorem findExistingRows_duplicate_identity_counterexample:
  "identity_matches [(''uniq'', VStr ''a'')] [(''id'', VNum 1), (''uniq'', VStr ''a'')] \<and>
   partition_spec
     [([(''uniq'', VStr ''a'')], [(''uniq'', VStr ''a'')]),
      ([(''uniq'', VStr ''a'')], [(''uniq'', VStr ''a'')])]
     [[(''id'', VNum 1), (''uniq'', VStr ''a'')]]
   = ([[(''id'', VNum 1), (''uniq'', VStr ''a'')], [(''id'', VNum 1), (''uniq'', VStr ''a'')]], []) \<and>
   u_findExistingRows (fixed_store None [[(''id'', VNum 1), (''uniq'', VStr ''a'')]])
     example_thing (BArray [[(''uniq'', VStr ''a'')], [(''uniq'', VStr ''a'')]]) ()
   = (Inr ([[(''id'', VNum 1), (''uniq'', VStr ''a'')]], [[(''uniq'', VStr ''a'')]]), ())"
  by (simp add: u_findExistingRows_def switchByType_body_def Let_def identity_matches_def
        partition_spec_def map_filter_simps
        u_getInstanceValidIndexFields_def u_getInstanceValidIndexes_def
        u_getUniqueIndexes_def u_getIndexes_def get_def keys_def splice1_def
        example_thing_def fixed_store_def)

theorem findExistingRows_partition_witness:
  "u_findExistingRows (fixed_store None [[(''id'', VNum 1), (''uniq'', VStr ''a'')]])
     example_thing (BArray [[(''uniq'', VStr ''a'')], [(''uniq'', VStr ''b'')]]) ()
   = (Inr ([[(''id'', VNum 1), (''uniq'', VStr ''a'')]], [[(''uniq'', VStr ''b'')]]), ()) \<and>
   u_findExistingRows (fixed_store None [[(''id'', VNum 1), (''uniq'', VStr ''a'')]])
     example_thing (BArray [[(''uniq'', VStr ''a'')]]) ()
   = (Inr ([[(''id'', VNum 1), (''uniq'', VStr ''a'')]], []), ()) \<and>
   u_findExistingRows (fixed_store None [])
     example_thing (BArray [[(''name'', VStr ''n'')], [(''uniq'', VStr ''b'')]]) ()
   = (Inr ([], [[(''name'', VStr ''n'')], [(''uniq'', VStr ''b'')]]), ())"
proof -
  let ?found = "fixed_store None [[(''id'', VNum 1), (''uniq'', VStr ''a'')]]"
  have two: "map (u_getInstanceValidIndexFields (u_getUniqueIndexes example_thing))
      [[(''uniq'', VStr ''a'')], [(''uniq'', VStr ''b'')]]
      = map Some [[(''uniq'', VStr ''a'')], [(''uniq'', VStr ''b'')]]"
    by (simp add: u_getInstanceValidIndexFields_def u_getInstanceValidIndexes_def
          u_getUniqueIndexes_def u_getIndexes_def get_def example_thing_def)
  have found: "st_findAll ?found \<lparr>fa_where = WhereOr ids, fa_order = []\<rparr> () =
      (Inr [[(''id'', VNum 1), (''uniq'', VStr ''a'')]], ())" for ids
    by (simp add: fixed_store_def)
  have no_rows: "st_findAll (fixed_store None []) \<lparr>fa_where = WhereOr ids, fa_order = []\<rparr> () =
      (Inr [], ())" for ids
    by (simp add: fixed_store_def)
  have spec: "partition_spec
      (zip [[(''uniq'', VStr ''a'')], [(''uniq'', VStr ''b'')]]
           [[(''uniq'', VStr ''a'')], [(''uniq'', VStr ''b'')]])
      [[(''id'', VNum 1), (''uniq'', VStr ''a'')]]
      = ([[(''id'', VNum 1), (''uniq'', VStr ''a'')]], [[(''uniq'', VStr ''b'')]])"
    by (simp add: partition_spec_def identity_matches_def map_filter_simps get_def keys_def)
  have at_most_one: "\<forall>row \<in> set [[(''id'', VNum 1), (''uniq'', VStr ''a'')]].
      length (filter (\<lambda>(ident, record). identity_matches ident row)
        (zip [[(''uniq'', VStr ''a'')], [(''uniq'', VStr ''b'')]]
             [[(''uniq'', VStr ''a'')], [(''uniq'', VStr ''b'')]])) \<le> 1"
    by (simp add: identity_matches_def get_def keys_def)
  have differ: "length [[(''id'', VNum 1), (''uniq'', VStr ''a'')]] \<noteq>
      length [[(''uniq'', VStr ''a'')], [(''uniq'', VStr ''b'')]]"
    by simp
  have same: "length [[(''id'', VNum 1), (''uniq'', VStr ''a'')]] = length [[(''uniq'', VStr ''a'')]]"
    by simp
  have none: "([] :: jsrecord list) = [] \<and> [[(''name'', VStr ''n'')], [(''uniq'', VStr ''b'')]] \<noteq> []"
    by simp
  from findExistingRows_partition
    [where m = example_thing and records = "[[(''uniq'', VStr ''a'')], [(''uniq'', VStr ''b'')]]"
       and idents = "[[(''uniq'', VStr ''a'')], [(''uniq'', VStr ''b'')]]", OF found]
    differ two at_most_one
  have "u_findExistingRows ?found example_thing
      (BArray [[(''uniq'', VStr ''a'')], [(''uniq'', VStr ''b'')]]) ()
      = (Inr (partition_spec
                (zip [[(''uniq'', VStr ''a'')], [(''uniq'', VStr ''b'')]]
                     [[(''uniq'', VStr ''a'')], [(''uniq'', VStr ''b'')]])
                [[(''id'', VNum 1), (''uniq'', VStr ''a'')]]), ())"
    by blast
  then have first: "u_findExistingRows ?found example_thing
      (BArray [[(''uniq'', VStr ''a'')], [(''uniq'', VStr ''b'')]]) ()
      = (Inr ([[(''id'', VNum 1), (''uniq'', VStr ''a'')]], [[(''uniq'', VStr ''b'')]]), ())"
    unfolding spec .
  from findExistingRows_partition
    [where m = example_thing and records = "[[(''uniq'', VStr ''a'')]]", OF found] same
  have second: "u_findExistingRows ?found example_thing (BArray [[(''uniq'', VStr ''a'')]]) ()
      = (Inr ([[(''id'', VNum 1), (''uniq'', VStr ''a'')]], []), ())"
    by blast
  from findExistingRows_partition
    [where m = example_thing and records = "[[(''name'', VStr ''n'')], [(''uniq'', VStr ''b'')]]",
     OF no_rows] none
  have third: "u_findExistingRows (fixed_store None []) example_thing
      (BArray [[(''name'', VStr ''n'')], [(''uniq'', VStr ''b'')]]) ()
      = (Inr ([], [[(''name'', VStr ''n'')], [(''uniq'', VStr ''b'')]]), ())"
    by blast
  from first second third show ?thesis by blast
qed

text \<open>
  A record without identity while a returned row is left: the lookup for the one record
  returns two rows, and reading the fields of the identity fails.
\<close>

lemma findExistingRows_without_identity_row_left:
  "u_findExistingRows
     (fixed_store None [[(''id'', VNum 1), (''uniq'', VStr ''a'')],
                        [(''id'', VNum 2), (''uniq'', VStr ''b'')]])
     example_thing (BArray [[(''name'', VStr ''n'')]]) ()
   = (Inl TypeError, ())"
  by (simp add: u_findExistingRows_def switchByType_body_def Let_def
        u_getInstanceValidIndexFields_def u_getInstanceValidIndexes_def
        u_getUniqueIndexes_def u_getIndexes_def get_def example_thing_def fixed_store_def)

section \<open>Properties of the association query rewriter\<close>

lemma keeps_ret: "Q x \<Longrightarrow> keeps I (ret x) Q"
  by (simp add: keeps_def ret_def)

lemma keeps_bind:
  assumes "keeps I f Q" and "\<And>x. Q x \<Longrightarrow> keeps I (g x) R"
  shows "keeps I (bind f g) R"
  unfolding keeps_def
proof (intro allI impI)
  fix h
  assume "I h"
  with assms(1) have f: "case f h of (Inl e, h') \<Rightarrow> I h' | (Inr x, h') \<Rightarrow> I h' \<and> Q x"
    by (simp add: keeps_def)
  show "case bind f g h of (Inl e, h') \<Rightarrow> I h' | (Inr x, h') \<Rightarrow> I h' \<and> R x"
  proof (cases "f h")
    case (Pair r h')
    show ?thesis
    proof (cases r)
      case (Inl e)
      with Pair f show ?thesis by (simp add: bind_def)
    next
      case (Inr x)
      with Pair f have "I h'" and "Q x" by simp_all
      with assms(2) [of x] have "case g x h' of (Inl e, h'') \<Rightarrow> I h'' | (Inr y, h'') \<Rightarrow> I h'' \<and> R y"
        by (simp add: keeps_def)
      with Pair Inr show ?thesis by (simp add: bind_def)
    qed
  qed
qed

lemma keeps_weaken: "keeps I f Q \<Longrightarrow> (\<And>x. Q x \<Longrightarrow> R x) \<Longrightarrow> keeps I f R"
  by (fastforce simp: keeps_def split: prod.splits sum.splits)

lemma keeps_read_copy:
  "keeps (clone_inv h0 a) (read_prop (Ref a) key) (\<lambda>v. is_new h0 v \<and> v \<noteq> Ref a)"
  by (auto simp: keeps_def read_prop_def clone_inv_def refs_of_def list_all_iff is_new_def
        split: obj.splits option.splits dest!: map_of_SomeD)

lemma keeps_read: "keeps (clone_inv h0 a) (read_prop target key) (\<lambda>v. True)"
  by (auto simp: keeps_def read_prop_def split: jv.splits obj.splits)

lemma keeps_new_obj:
  "keeps (clone_inv h0 a) (new_obj ob) (\<lambda>v. is_new h0 v \<and> v \<noteq> Ref a)"
  by (auto simp: keeps_def new_obj_def clone_inv_def unchanged_def is_new_def)

lemma update_values:
  "list_all P (map snd ps) \<Longrightarrow> P v \<Longrightarrow> list_all P (map snd (AList.update k v ps))"
  by (induction ps) auto

lemma keeps_write_copy:
  assumes "is_new h0 v \<and> v \<noteq> Ref a"
  shows "keeps (clone_inv h0 a) (write_prop (Ref a) key v) (\<lambda>u. True)"
  using assms
  by (auto simp: keeps_def write_prop_def clone_inv_def unchanged_def refs_of_def
        split: obj.splits intro!: update_values)

lemma keeps_write_new:
  assumes "is_new h0 target \<and> target \<noteq> Ref a"
  shows "keeps (clone_inv h0 a) (write_prop target key v) (\<lambda>u. True)"
  using assms
  by (auto simp: keeps_def write_prop_def clone_inv_def unchanged_def is_new_def
        split: jv.splits obj.splits)

lemma keeps_assign_new:
  assumes "is_new h0 target \<and> target \<noteq> Ref a"
  shows "keeps (clone_inv h0 a) (assign_into target source) (\<lambda>u. True)"
  using assms
  by (auto simp: keeps_def assign_into_def clone_inv_def unchanged_def is_new_def
        split: jv.splits obj.splits)

lemma keeps_push_new:
  assumes "is_new h0 target \<and> target \<noteq> Ref a"
  shows "keeps (clone_inv h0 a) (push target v) (\<lambda>u. True)"
  using assms
  by (auto simp: keeps_def push_def clone_inv_def unchanged_def is_new_def
        split: jv.splits obj.splits)

lemma some_plural_reads_only: "snd (some_plural xs h) = h"
  by (induction xs) (auto simp: ret_def bind_def read_prop_def split: jv.splits obj.splits)

lemma hasPluralAssociation_reads_only: "snd (hasPluralAssociation inc h) = h"
  by (simp add: hasPluralAssociation_def some_plural_reads_only split: jv.splits obj.splits)

lemma keeps_hasPluralAssociation: "keeps I (hasPluralAssociation inc) (\<lambda>b. True)"
  unfolding keeps_def
proof (intro allI impI)
  fix h
  assume "I h"
  moreover obtain r h' where r: "hasPluralAssociation inc h = (r, h')"
    by (cases "hasPluralAssociation inc h")
  moreover from r have "h' = h"
    using hasPluralAssociation_reads_only [of inc h] by simp
  ultimately show "case hasPluralAssociation inc h of
      (Inl e, h') \<Rightarrow> I h' | (Inr x, h') \<Rightarrow> I h' \<and> True"
    by (simp split: sum.splits)
qed

lemma keeps_if:
  "(c \<Longrightarrow> keeps I f Q) \<Longrightarrow> (\<not> c \<Longrightarrow> keeps I g Q) \<Longrightarrow> keeps I (if c then f else g) Q"
  by simp

lemma prim_is_new: "is_new h0 (Prim p) \<and> Prim p \<noteq> Ref a"
  by (simp add: is_new_def)

lemma hasManyRewrite_keeps:
  "keeps (clone_inv h0 a) (hasManyRewrite association (Ref a) ownerId) (\<lambda>r. r = Ref a)"
  unfolding hasManyRewrite_def
  apply (rule keeps_bind [where Q = "\<lambda>v. is_new h0 v \<and> v \<noteq> Ref a"])
   apply (rule keeps_read_copy)
  apply (rule keeps_bind [where Q = "\<lambda>v. is_new h0 v \<and> v \<noteq> Ref a"])
   apply (rule keeps_if)
    apply (erule keeps_ret)
   apply (rule keeps_new_obj)
  apply (rule keeps_bind [where Q = "\<lambda>u. True"])
   apply (erule keeps_write_copy)
  apply (rule keeps_bind [where Q = "\<lambda>u. True"])
   apply (cases "as_scope association")
    apply (simp add: keeps_ret)
   apply simp
   apply (rule keeps_bind [where Q = "\<lambda>v. is_new h0 v \<and> v \<noteq> Ref a"])
    apply (rule keeps_read_copy)
   apply (erule keeps_assign_new)
  apply (rule keeps_bind [where Q = "\<lambda>v. is_new h0 v \<and> v \<noteq> Ref a"])
   apply (rule keeps_read_copy)
  apply (rule keeps_bind [where Q = "\<lambda>u. True"])
   apply (erule keeps_write_new)
  apply (rule keeps_bind [where Q = "\<lambda>v. True"])
   apply (rule keeps_read)
  apply (rule keeps_bind [where Q = "\<lambda>b. True"])
   apply (rule keeps_hasPluralAssociation)
  apply (rule keeps_bind [where Q = "\<lambda>u. True"])
   apply (rule keeps_if)
    apply (rule keeps_write_copy)
    apply (rule prim_is_new)
   apply (simp add: keeps_ret)
  apply (simp add: keeps_ret)
  done

lemma throughInclude_keeps:
  "keeps (clone_inv h0 a) (throughInclude association through (Ref a) ownerId) (\<lambda>u. True)"
  unfolding throughInclude_def
  apply (rule keeps_bind [where Q = "\<lambda>v. is_new h0 v \<and> v \<noteq> Ref a"])
   apply (rule keeps_new_obj)
  apply (rule keeps_bind [where Q = "\<lambda>u. True"])
   apply (cases "th_scope through")
    apply (simp add: keeps_ret)
   apply simp
   apply (erule keeps_assign_new)
  apply (rule keeps_bind [where Q = "\<lambda>v. True"])
   apply (rule keeps_read)
  apply (rule keeps_bind [where Q = "\<lambda>v. True"])
   apply (rule keeps_if)
    apply (rule keeps_read)
   apply (simp add: keeps_ret)
  apply (rule keeps_bind [where Q = "\<lambda>v. True"])
   apply (rule keeps_if)
    apply (rule keeps_bind [where Q = "\<lambda>v. True"])
     apply (rule keeps_weaken [OF keeps_new_obj])
     apply simp
    apply (rule keeps_weaken [OF keeps_new_obj])
    apply simp
   apply (simp add: keeps_ret)
  apply (rule keeps_bind [where Q = "\<lambda>v. is_new h0 v \<and> v \<noteq> Ref a"])
   apply (rule keeps_read_copy)
  apply (rule keeps_bind [where Q = "\<lambda>v. is_new h0 v \<and> v \<noteq> Ref a"])
   apply (rule keeps_if)
    apply (erule keeps_ret)
   apply (rule keeps_new_obj)
  apply (rule keeps_bind [where Q = "\<lambda>u. True"])
   apply (erule keeps_write_copy)
  apply (rule keeps_bind [where Q = "\<lambda>v. True"])
   apply (rule keeps_read)
  apply (rule keeps_bind [where Q = "\<lambda>v. True"])
   apply (rule keeps_weaken [OF keeps_new_obj])
   apply simp
  apply (rule keeps_bind [where Q = "\<lambda>v. is_new h0 v \<and> v \<noteq> Ref a"])
   apply (rule keeps_read_copy)
  apply (erule keeps_push_new)
  done

lemma belongsToManyRewrite_keeps:
  "keeps (clone_inv h0 a) (belongsToManyRewrite association (Ref a) ownerId) (\<lambda>r. r = Ref a)"
  unfolding belongsToManyRewrite_def
  apply (rule keeps_bind [where Q = "\<lambda>v. True"])
   apply (cases "as_scope association")
    apply (simp add: keeps_ret)
   apply simp
   apply (rule keeps_weaken [OF keeps_new_obj])
   apply simp
  apply (rule keeps_bind [where Q = "\<lambda>v. True"])
   apply (rule keeps_read)
  apply (rule keeps_bind [where Q = "\<lambda>v. True"])
   apply (rule keeps_weaken [OF keeps_new_obj])
   apply simp
  apply (rule keeps_bind [where Q = "\<lambda>v. is_new h0 v \<and> v \<noteq> Ref a"])
   apply (rule keeps_new_obj)
  apply (rule keeps_bind [where Q = "\<lambda>u. True"])
   apply (erule keeps_write_copy)
  apply (rule keeps_bind [where Q = "\<lambda>u. True"])
   apply (cases "as_through association")
    apply (simp add: keeps_def)
   apply (simp add: keeps_ret throughInclude_keeps)
  apply (rule keeps_bind [where Q = "\<lambda>v. True"])
   apply (rule keeps_read)
  apply (rule keeps_bind [where Q = "\<lambda>b. True"])
   apply (rule keeps_hasPluralAssociation)
  apply (rule keeps_bind [where Q = "\<lambda>u. True"])
   apply (rule keeps_if)
    apply (rule keeps_write_copy)
    apply (rule prim_is_new)
   apply (simp add: keeps_ret)
  apply (simp add: keeps_ret)
  done

lemma hasManyRewrite_prim:
  assumes "unchanged h0 h"
  shows "unchanged h0 (snd (hasManyRewrite association (Prim p) ownerId h)) \<and>
         isl (fst (hasManyRewrite association (Prim p) ownerId h))"
  using assms
  by (simp add: hasManyRewrite_def bind_def ret_def read_prop_def write_prop_def new_obj_def
        unchanged_def)

lemma belongsToManyRewrite_prim:
  assumes "unchanged h0 h"
  shows "unchanged h0 (snd (belongsToManyRewrite association (Prim p) ownerId h)) \<and>
         isl (fst (belongsToManyRewrite association (Prim p) ownerId h))"
  using assms
  by (simp add: belongsToManyRewrite_def bind_def ret_def read_prop_def write_prop_def
        new_obj_def unchanged_def split: option.splits)

lemma rewrite_after_clone:
  assumes clone: "clone_of h q (cloneDeep h q)"
    and copy: "\<And>a h0. keeps (clone_inv h0 a) (rewrite (Ref a)) (\<lambda>r. r = Ref a)"
    and prim: "\<And>p h1. unchanged h h1 \<Longrightarrow>
                 unchanged h (snd (rewrite (Prim p) h1)) \<and> isl (fst (rewrite (Prim p) h1))"
  shows "unchanged h
           (snd (bind (\<lambda>h. case cloneDeep h q of (query, h') \<Rightarrow> (Inr query, h')) rewrite h)) \<and>
         (isl (fst (bind (\<lambda>h. case cloneDeep h q of (query, h') \<Rightarrow> (Inr query, h')) rewrite h)) \<or>
          fst (bind (\<lambda>h. case cloneDeep h q of (query, h') \<Rightarrow> (Inr query, h')) rewrite h)
            = Inr (fst (cloneDeep h q)))"
proof -
  obtain query h1 where c: "cloneDeep h q = (query, h1)"
    by (cases "cloneDeep h q")
  have run: "bind (\<lambda>h. case cloneDeep h q of (query, h') \<Rightarrow> (Inr query, h')) rewrite h
      = rewrite query h1"
    by (simp add: bind_def c)
  from clone have u: "unchanged h h1"
    by (simp add: clone_of_def c)
  show ?thesis
  proof (cases query)
    case (Prim p)
    with prim [OF u, of p] show ?thesis by (simp add: run c)
  next
    case (Ref a)
    with clone have "clone_inv h a h1"
      by (simp add: clone_of_def c clone_inv_def)
    with copy [of h a] have
      "case rewrite (Ref a) h1 of
         (Inl e, h') \<Rightarrow> clone_inv h a h' | (Inr x, h') \<Rightarrow> clone_inv h a h' \<and> x = Ref a"
      by (simp add: keeps_def)
    then show ?thesis
      by (auto simp: run c Ref clone_inv_def split: prod.splits sum.splits)
  qed
qed

lemma returns_ret: "(\<And>h. P h \<Longrightarrow> Q x h) \<Longrightarrow> returns P (ret x) Q"
  by (simp add: returns_def ret_def)

lemma returns_bind:
  assumes "returns P f Q" and "\<And>x. returns (Q x) (g x) R"
  shows "returns P (bind f g) R"
  unfolding returns_def
proof (intro allI impI)
  fix h
  assume "P h"
  with assms(1) have c: "case f h of (Inl e, h') \<Rightarrow> False | (Inr x, h') \<Rightarrow> Q x h'"
    by (simp add: returns_def)
  obtain r h' where rh: "f h = (r, h')" by (cases "f h")
  with c obtain x where f: "f h = (Inr x, h')" and q: "Q x h'"
    by (cases r) simp_all
  from assms(2) [of x] q have "case g x h' of (Inl e, h'') \<Rightarrow> False | (Inr y, h'') \<Rightarrow> R y h''"
    by (simp add: returns_def)
  with f show "case bind f g h of (Inl e, h') \<Rightarrow> False | (Inr x, h') \<Rightarrow> R x h'"
    by (simp add: bind_def)
qed

lemma returns_pre: "returns P f Q \<Longrightarrow> (\<And>h. P' h \<Longrightarrow> P h) \<Longrightarrow> returns P' f Q"
  by (simp add: returns_def)

lemma returns_post:
  assumes "returns P f Q" and "\<And>x h. Q x h \<Longrightarrow> Q' x h"
  shows "returns P f Q'"
  unfolding returns_def
proof (intro allI impI)
  fix h
  assume "P h"
  with assms(1) have c: "case f h of (Inl e, h') \<Rightarrow> False | (Inr x, h') \<Rightarrow> Q x h'"
    by (simp add: returns_def)
  obtain r h' where rh: "f h = (r, h')" by (cases "f h")
  with c obtain x where "f h = (Inr x, h')" and "Q x h'"
    by (cases r) simp_all
  with assms(2) show "case f h of (Inl e, h') \<Rightarrow> False | (Inr x, h') \<Rightarrow> Q' x h'"
    by simp
qed

lemma returns_if:
  "(c \<Longrightarrow> returns P f Q) \<Longrightarrow> (\<not> c \<Longrightarrow> returns P g Q) \<Longrightarrow> returns P (if c then f else g) Q"
  by simp

lemma prop_of_update: "prop_of (AList.update k v ps) k' = (if k' = k then v else prop_of ps k')"
  by (simp add: prop_of_def update_conv')

lemma include_ok_new_obj:
  "include_ok a h v \<Longrightarrow>
   include_ok a (h\<lparr>cells := (cells h)(next_addr h := ob), next_addr := Suc (next_addr h)\<rparr>) v"
  by (simp add: include_ok_def split: jv.splits)

lemma include_ok_write:
  "include_ok a h v \<Longrightarrow> \<forall>xs. cells h b \<noteq> Arr xs \<Longrightarrow>
   include_ok a (h\<lparr>cells := (cells h)(b := Obj ps')\<rparr>) v"
  by (auto simp: include_ok_def split: jv.splits obj.splits)

lemma returns_new_obj:
  "returns (query_ok s t a) (new_obj ob)
     (\<lambda>r h. query_ok s t a h \<and>
             (case r of Prim p \<Rightarrow> False
              | Ref b \<Rightarrow> b \<noteq> a \<and> b < next_addr h \<and> cells h b = ob))"
  by (auto simp: returns_def new_obj_def query_ok_def include_ok_new_obj split: obj.splits)

lemma returns_read_where:
  "returns (query_ok s t a) (read_prop (Ref a) ''where'')
     (\<lambda>w h. query_ok s t a h \<and> where_ok a w \<and> (s \<longrightarrow> truthy_jv w))"
  by (auto simp: returns_def read_prop_def query_ok_def prop_of_def split: obj.splits)

lemma returns_read_include:
  "returns (query_ok s t a) (read_prop (Ref a) ''include'')
     (\<lambda>v h. query_ok s t a h \<and> include_ok a h v \<and> (t \<longrightarrow> truthy_jv v))"
  by (auto simp: returns_def read_prop_def query_ok_def prop_of_def split: obj.splits)

lemma returns_read_copy:
  "returns (query_ok s t a) (read_prop (Ref a) key) (\<lambda>v h. query_ok s t a h)"
  by (auto simp: returns_def read_prop_def query_ok_def split: obj.splits)

lemma returns_read_truthy:
  "truthy_jv target \<Longrightarrow> returns P (read_prop target key) (\<lambda>v h. P h)"
  by (cases target) (auto simp: returns_def read_prop_def split: obj.splits)

lemma returns_write_where:
  assumes "where_ok a w" and "truthy_jv w"
  shows "returns (query_ok s t a) (write_prop (Ref a) ''where'' w) (\<lambda>u h. query_ok True t a h)"
  using assms
  by (auto simp: returns_def write_prop_def query_ok_def prop_of_update include_ok_write
        split: obj.splits)

lemma returns_write_include:
  "returns (\<lambda>h. query_ok s t a h \<and> include_ok a h v \<and> truthy_jv v)
     (write_prop (Ref a) ''include'' v) (\<lambda>u h. query_ok s True a h)"
  by (auto simp: returns_def write_prop_def query_ok_def prop_of_update include_ok_write
        split: obj.splits)

lemma returns_write_distinct:
  "returns (query_ok s t a) (write_prop (Ref a) ''distinct'' v) (\<lambda>u h. query_ok s t a h)"
  by (auto simp: returns_def write_prop_def query_ok_def prop_of_update include_ok_write
        split: obj.splits)

lemma returns_write_other:
  assumes "b \<noteq> a"
  shows "returns (query_ok s t a) (write_prop (Ref b) key v) (\<lambda>u h. query_ok s t a h)"
  using assms
  by (auto simp: returns_def write_prop_def query_ok_def include_ok_write split: obj.splits)

lemma returns_assign_other:
  assumes "target \<noteq> Ref a"
  shows "returns (query_ok s t a) (assign_into target source) (\<lambda>u h. query_ok s t a h)"
  using assms
  by (cases target)
     (auto simp: returns_def assign_into_def query_ok_def include_ok_write split: obj.splits)

lemma include_ok_push:
  "include_ok a h v' \<Longrightarrow> cells h c = Arr xs \<Longrightarrow> truthy_jv v \<Longrightarrow>
   include_ok a (h\<lparr>cells := (cells h)(c := Arr (xs @ [v]))\<rparr>) v'"
  by (auto simp: include_ok_def split: jv.splits obj.splits)

lemma returns_push:
  "returns (\<lambda>h. query_ok s t a h \<and> include_ok a h target \<and> truthy_jv target \<and> truthy_jv v)
     (push target v) (\<lambda>u h. query_ok s t a h)"
  unfolding returns_def
proof (intro allI impI)
  fix h
  assume p: "query_ok s t a h \<and> include_ok a h target \<and> truthy_jv target \<and> truthy_jv v"
  then obtain c xs where c: "target = Ref c" "c \<noteq> a" "cells h c = Arr xs"
    by (cases target) (auto simp: include_ok_def split: obj.splits)
  from p obtain ps where ps: "cells h a = Obj ps"
    by (auto simp: query_ok_def split: obj.splits)
  from p have "include_ok a (h\<lparr>cells := (cells h)(c := Arr (xs @ [v]))\<rparr>) (prop_of ps ''include'')"
    using include_ok_push [OF _ c(3), of a "prop_of ps ''include''" v]
    by (simp add: query_ok_def ps)
  with p c ps have "query_ok s t a (h\<lparr>cells := (cells h)(c := Arr (xs @ [v]))\<rparr>)"
    by (simp add: query_ok_def)
  with c show "case push target v h of
      (Inl e, h') \<Rightarrow> False | (Inr u, h') \<Rightarrow> query_ok s t a h'"
    by (simp add: push_def)
qed

lemma read_prop_truthy: "truthy_jv target \<Longrightarrow> \<exists>v. read_prop target key h = (Inr v, h)"
  by (cases target) (auto simp: read_prop_def split: obj.splits)

lemma some_plural_returns:
  "list_all truthy_jv xs \<Longrightarrow> \<exists>b. some_plural xs h = (Inr b, h)"
proof (induction xs)
  case Nil
  show ?case by (auto simp: ret_def)
next
  case (Cons x xs)
  then obtain b where rest: "some_plural xs h = (Inr b, h)" by auto
  from Cons.prems have "truthy_jv x" by simp
  then obtain assoc where r1: "read_prop x ''association'' h = (Inr assoc, h)"
    using read_prop_truthy by blast
  show ?case
  proof (cases "truthy_jv assoc")
    case False
    with r1 rest show ?thesis by (auto simp: bind_def)
  next
    case True
    then obtain multi where r2: "read_prop assoc ''isMultiAssociation'' h = (Inr multi, h)"
      using read_prop_truthy by blast
    with r1 rest True show ?thesis by (auto simp: bind_def ret_def)
  qed
qed

lemma returns_hasPluralAssociation:
  "returns (\<lambda>h. P h \<and> include_ok a h inc) (hasPluralAssociation inc) (\<lambda>b h. P h)"
  unfolding returns_def
proof (intro allI impI)
  fix h
  assume p: "P h \<and> include_ok a h inc"
  show "case hasPluralAssociation inc h of (Inl e, h') \<Rightarrow> False | (Inr x, h') \<Rightarrow> P h'"
  proof (cases "truthy_jv inc")
    case False
    with p show ?thesis by (simp add: hasPluralAssociation_def)
  next
    case True
    with p obtain c xs where c: "inc = Ref c" "cells h c = Arr xs" "list_all truthy_jv xs"
      by (cases inc) (auto simp: include_ok_def split: obj.splits)
    from some_plural_returns [OF c(3), of h] obtain b where "some_plural xs h = (Inr b, h)"
      by blast
    with c p show ?thesis by (simp add: hasPluralAssociation_def)
  qed
qed

lemma returns_pure: "(C \<Longrightarrow> returns P f Q) \<Longrightarrow> returns (\<lambda>h. P h \<and> C) f Q"
  by (simp add: returns_def)

lemma returns_write_target:
  assumes "where_ok a target \<and> truthy_jv target"
  shows "returns (query_ok s t a) (write_prop target key v) (\<lambda>u h. query_ok s t a h)"
  using assms by (cases target) (simp_all add: where_ok_def returns_write_other)

lemma returns_assign_target:
  assumes "where_ok a target \<and> truthy_jv target"
  shows "returns (query_ok s t a) (assign_into target source) (\<lambda>u h. query_ok s t a h)"
  using assms by (intro returns_assign_other) (auto simp: where_ok_def)

lemma hasManyRewrite_returns:
  "returns (query_ok False False a) (hasManyRewrite association (Ref a) ownerId)
     (\<lambda>r h. r = Ref a)"
  unfolding hasManyRewrite_def
  apply (rule returns_bind [where Q = "\<lambda>w h. query_ok False False a h \<and> where_ok a w"])
   apply (rule returns_post [OF returns_read_where])
   apply simp
  apply (rule returns_bind
      [where Q = "\<lambda>w h. query_ok False False a h \<and> (where_ok a w \<and> truthy_jv w)"])
   apply (rule returns_if)
    apply (rule returns_ret)
    apply simp
   apply (rule returns_pre
       [OF returns_post [OF returns_new_obj [where s = False and t = False and a = a]]])
    apply (simp add: where_ok_def split: jv.splits)
   apply simp
  apply (rule returns_bind [where Q = "\<lambda>u h. query_ok True False a h"])
   apply (rule returns_pure)
   apply (erule conjE)
   apply (erule (1) returns_write_where)
  apply (rule returns_bind [where Q = "\<lambda>u h. query_ok True False a h"])
   apply (cases "as_scope association")
    apply (simp add: returns_ret)
   apply simp
   apply (rule returns_bind
      [where Q = "\<lambda>w h. query_ok True False a h \<and> (where_ok a w \<and> truthy_jv w)"])
    apply (rule returns_post [OF returns_read_where])
    apply simp
   apply (rule returns_pure)
   apply (erule returns_assign_target)
  apply (rule returns_bind
      [where Q = "\<lambda>w h. query_ok True False a h \<and> (where_ok a w \<and> truthy_jv w)"])
   apply (rule returns_post [OF returns_read_where])
   apply simp
  apply (rule returns_bind [where Q = "\<lambda>u h. query_ok True False a h"])
   apply (rule returns_pure)
   apply (erule returns_write_target)
  apply (rule returns_bind
      [where Q = "\<lambda>inc h. query_ok True False a h \<and> include_ok a h inc"])
   apply (rule returns_post [OF returns_read_include])
   apply simp
  apply (rule returns_bind [where Q = "\<lambda>b h. query_ok True False a h"])
   apply (rule returns_hasPluralAssociation)
  apply (rule returns_bind [where Q = "\<lambda>u h. query_ok True False a h"])
   apply (rule returns_if)
    apply (rule returns_write_distinct)
   apply (simp add: returns_ret)
  apply (simp add: returns_ret)
  done

lemma query_ok_weaken: "query_ok s True a h \<Longrightarrow> query_ok s False a h"
  by (simp add: query_ok_def split: obj.splits)

lemma returns_new_obj_plain:
  "returns (query_ok s t a) (new_obj ob) (\<lambda>r h. query_ok s t a h)"
  by (rule returns_post [OF returns_new_obj]) simp

lemma returns_new_obj_truthy:
  "returns (query_ok s t a) (new_obj ob)
     (\<lambda>r h. query_ok s t a h \<and> (where_ok a r \<and> truthy_jv r))"
  by (rule returns_post [OF returns_new_obj]) (simp add: where_ok_def split: jv.splits)

lemma throughInclude_returns:
  "returns (query_ok s False a) (throughInclude association through (Ref a) ownerId)
     (\<lambda>u h. query_ok s True a h)"
  unfolding throughInclude_def
  apply (rule returns_bind
      [where Q = "\<lambda>w h. query_ok s False a h \<and> (where_ok a w \<and> truthy_jv w)"])
   apply (rule returns_new_obj_truthy)
  apply (rule returns_bind [where Q = "\<lambda>u h. query_ok s False a h"])
   apply (cases "th_scope through")
    apply simp
    apply (rule returns_ret)
    apply simp
   apply simp
   apply (rule returns_pure)
   apply (erule returns_assign_target)
  apply (rule returns_bind [where Q = "\<lambda>v h. query_ok s False a h"])
   apply (rule returns_pre [OF returns_read_copy])
   apply simp
  apply (rule returns_bind [where Q = "\<lambda>v h. query_ok s False a h"])
   apply (rule returns_if)
    apply (erule returns_read_truthy)
   apply (simp add: returns_ret)
  apply (rule returns_bind [where Q = "\<lambda>v h. query_ok s False a h"])
   apply (rule returns_if)
    apply (rule returns_bind [where Q = "\<lambda>v h. query_ok s False a h"])
     apply (rule returns_new_obj_plain)
    apply (rule returns_new_obj_plain)
   apply (simp add: returns_ret)
  apply (rule returns_bind
      [where Q = "\<lambda>inc h. query_ok s False a h \<and> include_ok a h inc"])
   apply (rule returns_post [OF returns_read_include])
   apply simp
  apply (rule returns_bind
      [where Q = "\<lambda>inc h. query_ok s False a h \<and> include_ok a h inc \<and> truthy_jv inc"])
   apply (rule returns_if)
    apply (rule returns_ret)
    apply simp
   apply (rule returns_pre
       [OF returns_post [OF returns_new_obj [where s = s and t = False and a = a]]])
    apply (simp add: include_ok_def split: jv.splits)
   apply simp
  apply (rule returns_bind [where Q = "\<lambda>u h. query_ok s True a h"])
   apply (rule returns_write_include)
  apply (rule returns_bind [where Q = "\<lambda>v h. query_ok s True a h"])
   apply (rule returns_read_copy)
  apply (rule returns_bind [where Q = "\<lambda>e h. query_ok s True a h \<and> truthy_jv e"])
   apply (rule returns_post [OF returns_new_obj])
   apply (simp split: jv.splits)
  apply (rule returns_pure)
  apply (rule returns_bind
      [where Q = "\<lambda>target h. query_ok s True a h \<and> include_ok a h target \<and>
                    truthy_jv target \<and> truthy_jv x"
         for x])
   apply (rule returns_post [OF returns_read_include])
   apply simp
  apply (rule returns_push)
  done

lemma belongsToManyRewrite_returns:
  assumes "as_through association = Some through"
  shows "returns (query_ok False False a) (belongsToManyRewrite association (Ref a) ownerId)
           (\<lambda>r h. r = Ref a)"
  unfolding belongsToManyRewrite_def
  apply (rule returns_bind [where Q = "\<lambda>v h. query_ok False False a h"])
   apply (cases "as_scope association")
    apply (simp add: returns_ret)
   apply (simp add: returns_new_obj_plain)
  apply (rule returns_bind [where Q = "\<lambda>v h. query_ok False False a h"])
   apply (rule returns_read_copy)
  apply (rule returns_bind [where Q = "\<lambda>v h. query_ok False False a h"])
   apply (rule returns_new_obj_plain)
  apply (rule returns_bind
      [where Q = "\<lambda>w h. query_ok False False a h \<and> (where_ok a w \<and> truthy_jv w)"])
   apply (rule returns_new_obj_truthy)
  apply (rule returns_bind [where Q = "\<lambda>u h. query_ok True False a h"])
   apply (rule returns_pure)
   apply (erule conjE)
   apply (erule (1) returns_write_where)
  apply (rule returns_bind [where Q = "\<lambda>u h. query_ok True False a h"])
   apply (simp add: assms)
   apply (rule conjI)
    apply (rule impI)
    apply (rule returns_post [OF throughInclude_returns])
    apply (erule query_ok_weaken)
   apply (simp add: returns_ret)
  apply (rule returns_bind
      [where Q = "\<lambda>inc h. query_ok True False a h \<and> include_ok a h inc"])
   apply (rule returns_post [OF returns_read_include])
   apply simp
  apply (rule returns_bind [where Q = "\<lambda>b h. query_ok True False a h"])
   apply (rule returns_hasPluralAssociation)
  apply (rule returns_bind [where Q = "\<lambda>u h. query_ok True False a h"])
   apply (rule returns_if)
    apply (rule returns_write_distinct)
   apply (simp add: returns_ret)
  apply (simp add: returns_ret)
  done

lemma returns_after_clone:
  assumes "cloneDeep h q = (Ref a, hc)" and "query_ok False False a hc"
    and "returns (query_ok False False a) (rewrite (Ref a)) (\<lambda>r h. r = Ref a)"
  shows "fst (bind (\<lambda>h. case cloneDeep h q of (query, h') \<Rightarrow> (Inr query, h')) rewrite h)
           = Inr (Ref a)"
proof -
  from assms(2,3) have "case rewrite (Ref a) hc of
      (Inl e, h') \<Rightarrow> False | (Inr x, h') \<Rightarrow> x = Ref a"
    by (simp add: returns_def)
  then show ?thesis
    by (auto simp: bind_def assms(1) split: prod.splits sum.splits)
qed

text \<open>
  C7. Given that \<open>cloneDeep\<close> returns a copy whose objects are new, both query generators
  leave every object that was in the heap before the call as it was, the caller's query
  among them, whether they return or throw, and what they return is the copy that
  \<open>cloneDeep\<close> made: the where clause, the pinned foreign key, the through inclusion and
  the distinct mark are written into the copy and into objects made after it. They do
  return when the copy is a query object whose \<open>where\<close> is falsy or an object and whose
  \<open>include\<close> is falsy or an array of truthy entries (and, for \<open>belongsToMany\<close>,
  the association has a \<open>through\<close>).
\<close>

theorem query_generators_write_to_the_clone_only:
  assumes "clone_of h q (cloneDeep h q)"
  shows "unchanged h (snd (hasManyQueryGenerator cloneDeep association q ownerId h)) \<and>
         (isl (fst (hasManyQueryGenerator cloneDeep association q ownerId h)) \<or>
          fst (hasManyQueryGenerator cloneDeep association q ownerId h)
            = Inr (fst (cloneDeep h q))) \<and>
         unchanged h (snd (belongsToManyQueryGenerator cloneDeep association q ownerId h)) \<and>
         (isl (fst (belongsToManyQueryGenerator cloneDeep association q ownerId h)) \<or>
          fst (belongsToManyQueryGenerator cloneDeep association q ownerId h)
            = Inr (fst (cloneDeep h q))) \<and>
         (cloneDeep h q = (Ref a, hc) \<and> query_ok False False a hc \<longrightarrow>
            fst (hasManyQueryGenerator cloneDeep association q ownerId h) = Inr (Ref a)) \<and>
         (cloneDeep h q = (Ref a, hc) \<and> query_ok False False a hc \<and>
          as_through association \<noteq> None \<longrightarrow>
            fst (belongsToManyQueryGenerator cloneDeep association q ownerId h) = Inr (Ref a))"
proof -
  have "unchanged h
          (snd (bind (\<lambda>h. case cloneDeep h q of (query, h') \<Rightarrow> (Inr query, h'))
                  (\<lambda>query. hasManyRewrite association query ownerId) h)) \<and>
        (isl (fst (bind (\<lambda>h. case cloneDeep h q of (query, h') \<Rightarrow> (Inr query, h'))
                     (\<lambda>query. hasManyRewrite association query ownerId) h)) \<or>
         fst (bind (\<lambda>h. case cloneDeep h q of (query, h') \<Rightarrow> (Inr query, h'))
                (\<lambda>query. hasManyRewrite association query ownerId) h)
           = Inr (fst (cloneDeep h q)))"
    by (rule rewrite_after_clone
          [where rewrite = "\<lambda>query. hasManyRewrite association query ownerId"
             and cloneDeep = cloneDeep and h = h and q = q])
       (rule assms, rule hasManyRewrite_keeps, erule hasManyRewrite_prim)
  moreover have "unchanged h
          (snd (bind (\<lambda>h. case cloneDeep h q of (query, h') \<Rightarrow> (Inr query, h'))
                  (\<lambda>query. belongsToManyRewrite association query ownerId) h)) \<and>
        (isl (fst (bind (\<lambda>h. case cloneDeep h q of (query, h') \<Rightarrow> (Inr query, h'))
                     (\<lambda>query. belongsToManyRewrite association query ownerId) h)) \<or>
         fst (bind (\<lambda>h. case cloneDeep h q of (query, h') \<Rightarrow> (Inr query, h'))
                (\<lambda>query. belongsToManyRewrite association query ownerId) h)
           = Inr (fst (cloneDeep h q)))"
    by (rule rewrite_after_clone
          [where rewrite = "\<lambda>query. belongsToManyRewrite association query ownerId"
             and cloneDeep = cloneDeep and h = h and q = q])
       (rule assms, rule belongsToManyRewrite_keeps, erule belongsToManyRewrite_prim)
  moreover have "fst (hasManyQueryGenerator cloneDeep association q ownerId h) = Inr (Ref a)"
    if "cloneDeep h q = (Ref a, hc) \<and> query_ok False False a hc"
    unfolding hasManyQueryGenerator_def
    using that
    by (intro returns_after_clone
          [where rewrite = "\<lambda>query. hasManyRewrite association query ownerId" and hc = hc]
          hasManyRewrite_returns) simp_all
  moreover have "fst (belongsToManyQueryGenerator cloneDeep association q ownerId h) = Inr (Ref a)"
    if "cloneDeep h q = (Ref a, hc) \<and> query_ok False False a hc \<and>
        as_through association \<noteq> None"
  proof -
    from that obtain through where "as_through association = Some through" by auto
    then have "returns (query_ok False False a)
        (belongsToManyRewrite association (Ref a) ownerId) (\<lambda>r h. r = Ref a)"
      by (rule belongsToManyRewrite_returns)
    with that show ?thesis
      unfolding belongsToManyQueryGenerator_def
      by (intro returns_after_clone
            [where rewrite = "\<lambda>query. belongsToManyRewrite association query ownerId"
               and hc = hc]) simp_all
  qed
  ultimately show ?thesis
    by (simp add: hasManyQueryGenerator_def belongsToManyQueryGenerator_def)
qed

theorem query_generators_write_to_the_clone_only_witness:
  "unchanged example_heap
     (snd (hasManyQueryGenerator (example_cloneDeep (Suc (Suc (Suc 0)))) example_hasMany
             (Ref 2) (VNum 7) example_heap)) \<and>
   fst (hasManyQueryGenerator (example_cloneDeep (Suc (Suc (Suc 0)))) example_hasMany
          (Ref 2) (VNum 7) example_heap) = Inr (Ref 5) \<and>
   cells (snd (hasManyQueryGenerator (example_cloneDeep (Suc (Suc (Suc 0)))) example_hasMany
                 (Ref 2) (VNum 7) example_heap)) 3
     = Obj [(''name'', Prim (VStr ''x'')), (''kind'', Prim (VStr ''castle'')),
            (''house_id'', Prim (VNum 7))] \<and>
   unchanged example_heap
     (snd (belongsToManyQueryGenerator (example_cloneDeep (Suc (Suc (Suc 0))))
             example_belongsToMany (Ref 2) (VNum 7) example_heap)) \<and>
   fst (belongsToManyQueryGenerator (example_cloneDeep (Suc (Suc (Suc 0))))
          example_belongsToMany (Ref 2) (VNum 7) example_heap) = Inr (Ref 5)"
proof -
  let ?h1 = "\<lparr>cells = (cells example_heap)
                 (3 := Obj [(''name'', Prim (VStr ''x''))],
                  4 := Arr [Prim (VStr ''id'')],
                  5 := Obj [(''where'', Ref 3), (''attributes'', Ref 4)]),
               next_addr = 6\<rparr>"
  have copy: "example_cloneDeep (Suc (Suc (Suc 0))) example_heap (Ref 2) = (Ref 5, ?h1)"
    by (simp add: example_heap_def)
  have clone: "clone_of example_heap (Ref 2)
      (example_cloneDeep (Suc (Suc (Suc 0))) example_heap (Ref 2))"
    by (simp add: clone_of_def example_heap_def unchanged_def refs_of_def is_new_def)
  have ok: "query_ok False False 5 ?h1"
    by (simp add: query_ok_def where_ok_def include_ok_def prop_of_def)
  have through: "as_through example_belongsToMany \<noteq> None"
    by (simp add: example_belongsToMany_def)
  have written: "cells (snd (hasManyQueryGenerator (example_cloneDeep (Suc (Suc (Suc 0))))
      example_hasMany (Ref 2) (VNum 7) example_heap)) 3
      = Obj [(''name'', Prim (VStr ''x'')), (''kind'', Prim (VStr ''castle'')),
             (''house_id'', Prim (VNum 7))]"
    by (simp add: hasManyQueryGenerator_def hasManyRewrite_def bind_def ret_def read_prop_def
          write_prop_def assign_into_def new_obj_def hasPluralAssociation_def
          example_heap_def example_hasMany_def)
  show ?thesis
    using query_generators_write_to_the_clone_only
        [where cloneDeep = "example_cloneDeep (Suc (Suc (Suc 0)))" and h = example_heap
           and q = "Ref 2" and association = example_hasMany and ownerId = "VNum 7"
           and a = 5 and hc = ?h1, OF clone]
      query_generators_write_to_the_clone_only
        [where cloneDeep = "example_cloneDeep (Suc (Suc (Suc 0)))" and h = example_heap
           and q = "Ref 2" and association = example_belongsToMany and ownerId = "VNum 7"
           and a = 5 and hc = ?h1, OF clone]
    unfolding copy
    by (simp add: ok through written)
qed

text \<open>
  That the copy matters: with a \<open>cloneDeep\<close> that returns its argument, the same call
  writes the scope and the foreign key into the caller's where clause at address 0.
\<close>

lemma without_clone_base_query_is_written:
  "cells (snd (hasManyQueryGenerator (\<lambda>h q. (q, h)) example_hasMany (Ref 2) (VNum 7)
                 example_heap)) 0
     = Obj [(''name'', Prim (VStr ''x'')), (''kind'', Prim (VStr ''castle'')),
            (''house_id'', Prim (VNum 7))] \<and>
   cells example_heap 0 = Obj [(''name'', Prim (VStr ''x''))]"
  by (simp add: hasManyQueryGenerator_def hasManyRewrite_def bind_def ret_def read_prop_def
        write_prop_def assign_into_def new_obj_def hasPluralAssociation_def
        example_heap_def example_hasMany_def)

end
